theory Spec2Isabelle
  imports Main "HOL-Library.Word"
begin

section \<open>Key bundles of a top-level folder (libkbfs/key\_bundle.go)\<close>

text \<open>
  The development follows \<^verbatim>\<open>src/libkbfs/key_bundle.go\<close>. Go maps that are only read and
  written by key are partial functions; a map the code ranges over is an association list
  whose order is the order in which \<^verbatim>\<open>range\<close> yields the entries (Go leaves that order
  open, and every theorem below holds for every order). Methods that mutate a map or a
  struct reached through a pointer take the old value and return the new one. A bundle is
  taken as \<^verbatim>\<open>NewTLFKeyBundle\<close>, \<^verbatim>\<open>DeepCopy\<close> and \<^verbatim>\<open>fillInDevicesAndServerMap\<close> build it: the two
  embedded pointers are not nil, every map is initialised, and no map object is shared.
\<close>

subsection \<open>Data model\<close>

type_synonym byte = "8 word"

type_synonym UID = string
type_synonym KID = string

text \<open>
  The key halves and keys are declared outside the two source files; the code of this
  file only passes them around. They are byte strings here.
\<close>

type_synonym TLFCryptKey = "byte list"
type_synonym TLFCryptKeyServerHalf = "byte list"
type_synonym TLFCryptKeyClientHalf = "byte list"
type_synonym EncryptedTLFCryptKeyClientHalf = "byte list"
type_synonym HMAC = "byte list"
type_synonym TLFPublicKey = "byte list"
type_synonym TLFEphemeralPublicKey = "byte list"
type_synonym TLFEphemeralPrivateKey = "byte list"

record CryptPublicKey =
  KID :: KID

record TLFCryptKeyServerHalfID =
  ID :: HMAC

record TLFCryptKeyInfo =
  ClientHalf :: EncryptedTLFCryptKeyClientHalf
  ServerHalfID :: TLFCryptKeyServerHalfID
  EPubKeyIndex :: int

type_synonym UserCryptKeyBundle = "KID \<rightharpoonup> TLFCryptKeyInfo"

type_synonym TLFKeyMap = "UID \<rightharpoonup> UserCryptKeyBundle"

record TLFWriterKeyBundle =
  WKeys :: TLFKeyMap
  TLFPublicKey :: TLFPublicKey
  TLFEphemeralPublicKeys :: "TLFEphemeralPublicKey list"

record TLFReaderKeyBundle =
  RKeys :: TLFKeyMap

record TLFKeyBundle =
  TLFWriterKeyBundle :: TLFWriterKeyBundle
  TLFReaderKeyBundle :: TLFReaderKeyBundle

type_synonym TLFWriterKeyGenerations = "TLFWriterKeyBundle list"
type_synonym TLFReaderKeyGenerations = "TLFReaderKeyBundle list"

type_synonym KeyGen = int

text \<open>
  An \<^verbatim>\<open>error\<close> value is either the typed not-found error of this file or a cause handed up
  from the crypto capability.
\<close>

datatype error =
  TLFEphemeralPublicKeyNotFoundError UID KID
| CryptoError string

text \<open>
  What a call does: it returns a value, returns an error, or the run-time system stops it
  with an index-out-of-range panic.
\<close>

datatype 'a outcome = Returned 'a | Failed error | IndexPanic

subsection \<open>Generation histories\<close>

text \<open>Go's \<^verbatim>\<open>s[i]\<close> on a slice with an \<^verbatim>\<open>int\<close> index.\<close>

definition slice_index :: "'a list \<Rightarrow> int \<Rightarrow> 'a outcome" where
  "slice_index xs i =
     (if 0 \<le> i \<and> i < int (length xs) then Returned (xs ! nat i) else IndexPanic)"

definition bind_outcome :: "'a outcome \<Rightarrow> ('a \<Rightarrow> 'b) \<Rightarrow> 'b outcome" where
  "bind_outcome r f = (case r of Returned x \<Rightarrow> Returned (f x) | Failed e \<Rightarrow> Failed e
     | IndexPanic \<Rightarrow> IndexPanic)"

text \<open>
  Go's \<^verbatim>\<open>tkm[user][deviceKID]\<close> with the comma-ok form: indexing a map by a missing key
  gives the zero value, here the nil per-user bundle, which has no entries.
\<close>

definition device_record :: "TLFKeyMap \<Rightarrow> UID \<Rightarrow> KID \<Rightarrow> TLFCryptKeyInfo option" where
  "device_record tkm user deviceKID =
     (case tkm user of None \<Rightarrow> None | Some u \<Rightarrow> u deviceKID)"

definition TLFWriterKeyBundle_IsWriter :: "TLFWriterKeyBundle \<Rightarrow> UID \<Rightarrow> KID \<Rightarrow> bool" where
  "TLFWriterKeyBundle_IsWriter tkb user deviceKID =
     (device_record (WKeys tkb) user deviceKID \<noteq> None)"

definition TLFReaderKeyBundle_IsReader :: "TLFReaderKeyBundle \<Rightarrow> UID \<Rightarrow> KID \<Rightarrow> bool" where
  "TLFReaderKeyBundle_IsReader trb user deviceKID =
     (device_record (RKeys trb) user deviceKID \<noteq> None)"

definition TLFWriterKeyGenerations_GetKeyGeneration :: "TLFWriterKeyGenerations \<Rightarrow> KeyGen" where
  "TLFWriterKeyGenerations_GetKeyGeneration tkg = int (length tkg)"

definition TLFReaderKeyGenerations_GetKeyGeneration :: "TLFReaderKeyGenerations \<Rightarrow> KeyGen" where
  "TLFReaderKeyGenerations_GetKeyGeneration tkg = int (length tkg)"

definition TLFWriterKeyGenerations_IsWriter ::
  "TLFWriterKeyGenerations \<Rightarrow> UID \<Rightarrow> KID \<Rightarrow> bool outcome" where
  "TLFWriterKeyGenerations_IsWriter tkg user deviceKID =
     (let keyGen = TLFWriterKeyGenerations_GetKeyGeneration tkg
      in if keyGen < 1 then Returned False
         else bind_outcome (slice_index tkg (keyGen - 1))
                (\<lambda>b. TLFWriterKeyBundle_IsWriter b user deviceKID))"

definition TLFReaderKeyGenerations_IsReader ::
  "TLFReaderKeyGenerations \<Rightarrow> UID \<Rightarrow> KID \<Rightarrow> bool outcome" where
  "TLFReaderKeyGenerations_IsReader tkg user deviceKID =
     (let keyGen = TLFReaderKeyGenerations_GetKeyGeneration tkg
      in if keyGen < 1 then Returned False
         else bind_outcome (slice_index tkg (keyGen - 1))
                (\<lambda>b. TLFReaderKeyBundle_IsReader b user deviceKID))"

subsection \<open>Lookup accessors of the combined bundle\<close>

text \<open>
  \<^verbatim>\<open>GetTLFCryptKeyInfo\<close> returns \<^verbatim>\<open>(info, ok, err)\<close>. The pair \<^verbatim>\<open>(info, ok)\<close> is an option
  here (\<open>None\<close> is \<^verbatim>\<open>ok == false\<close> with the zero record); the error is kept as the second
  component, \<open>None\<close> for \<^verbatim>\<open>nil\<close>.
\<close>

definition GetTLFCryptKeyInfo ::
  "TLFKeyBundle \<Rightarrow> UID \<Rightarrow> CryptPublicKey \<Rightarrow> TLFCryptKeyInfo option \<times> error option" where
  "GetTLFCryptKeyInfo tkb user currentCryptPublicKey =
     (let key = KID currentCryptPublicKey
      in case WKeys (TLFWriterKeyBundle tkb) user of
           Some u \<Rightarrow> (u key, None)
         | None \<Rightarrow>
             (case RKeys (TLFReaderKeyBundle tkb) user of
                Some u \<Rightarrow> (u key, None)
              | None \<Rightarrow> (None, None)))"

definition GetTLFEphemeralPublicKey ::
  "TLFKeyBundle \<Rightarrow> UID \<Rightarrow> CryptPublicKey \<Rightarrow> TLFEphemeralPublicKey outcome" where
  "GetTLFEphemeralPublicKey tkb user currentCryptPublicKey =
     (let key = KID currentCryptPublicKey
      in case GetTLFCryptKeyInfo tkb user currentCryptPublicKey of
           (_, Some err) \<Rightarrow> Failed err
         | (None, None) \<Rightarrow> Failed (TLFEphemeralPublicKeyNotFoundError user key)
         | (Some info, None) \<Rightarrow>
             slice_index (TLFEphemeralPublicKeys (TLFWriterKeyBundle tkb)) (EPubKeyIndex info))"

subsection \<open>The crypto capability\<close>

text \<open>
  \<^verbatim>\<open>Crypto\<close> is an interface declared outside the two source files; provisioning calls four of
  its methods. Each may fail and each may change the state \<open>'c\<close> of the capability (the
  random generator, for one), so a method takes that state and returns the new one beside
  its result. The value a method returns next to a non-nil error is never read by this
  file, so a result is a sum.
\<close>

record 'c Crypto =
  MakeRandomTLFCryptKeyServerHalf :: "'c \<Rightarrow> (error + TLFCryptKeyServerHalf) \<times> 'c"
  MaskTLFCryptKey ::
    "TLFCryptKeyServerHalf \<Rightarrow> TLFCryptKey \<Rightarrow> 'c \<Rightarrow> (error + TLFCryptKeyClientHalf) \<times> 'c"
  EncryptTLFCryptKeyClientHalf ::
    "TLFEphemeralPrivateKey \<Rightarrow> CryptPublicKey \<Rightarrow> TLFCryptKeyClientHalf \<Rightarrow> 'c \<Rightarrow>
       (error + EncryptedTLFCryptKeyClientHalf) \<times> 'c"
  GetTLFCryptKeyServerHalfID ::
    "UID \<Rightarrow> KID \<Rightarrow> TLFCryptKeyServerHalf \<Rightarrow> 'c \<Rightarrow> (error + TLFCryptKeyServerHalfID) \<times> 'c"

subsection \<open>Provisioning\<close>

type_synonym serverMap = "KID \<rightharpoonup> TLFCryptKeyServerHalf"
type_synonym serverKeyMap = "UID \<rightharpoonup> serverMap"

text \<open>
  Lines 71 to 101 for one device \<^verbatim>\<open>k\<close> that has no record yet, as a function of the state
  of the capability: the four calls in the order of the source, stopping at the first
  error, and the record and server half they produce. It is used to state properties;
  lemma \<open>fillInDeviceInfo_loop_step\<close> shows that the loop below runs exactly this.
\<close>

definition provision_device ::
  "'c Crypto \<Rightarrow> UID \<Rightarrow> TLFCryptKey \<Rightarrow> TLFEphemeralPrivateKey \<Rightarrow> int \<Rightarrow> CryptPublicKey \<Rightarrow> 'c \<Rightarrow>
   (error + TLFCryptKeyInfo \<times> TLFCryptKeyServerHalf) \<times> 'c" where
  "provision_device crypto uid tlfCryptKey ePrivKey ePubIndex k c =
     (case MakeRandomTLFCryptKeyServerHalf crypto c of
        (Inl err, c1) \<Rightarrow> (Inl err, c1)
      | (Inr serverHalf, c1) \<Rightarrow>
      (case MaskTLFCryptKey crypto serverHalf tlfCryptKey c1 of
        (Inl err, c2) \<Rightarrow> (Inl err, c2)
      | (Inr clientHalf, c2) \<Rightarrow>
      (case EncryptTLFCryptKeyClientHalf crypto ePrivKey k clientHalf c2 of
        (Inl err, c3) \<Rightarrow> (Inl err, c3)
      | (Inr encryptedClientHalf, c3) \<Rightarrow>
      (case GetTLFCryptKeyServerHalfID crypto uid (KID k) serverHalf c3 of
        (Inl err, c4) \<Rightarrow> (Inl err, c4)
      | (Inr serverHalfID, c4) \<Rightarrow>
          (Inr (\<lparr>ClientHalf = encryptedClientHalf, ServerHalfID = serverHalfID,
                 EPubKeyIndex = ePubIndex\<rparr>, serverHalf), c4)))))"

text \<open>
  One of the four crypto steps for device \<^verbatim>\<open>k\<close> fails with \<open>err\<close>, the steps before it
  having succeeded; the last argument is the state of the capability after the failing
  call.
\<close>

inductive crypto_step_fails ::
  "'c Crypto \<Rightarrow> UID \<Rightarrow> TLFCryptKey \<Rightarrow> TLFEphemeralPrivateKey \<Rightarrow> CryptPublicKey \<Rightarrow> 'c \<Rightarrow>
   error \<Rightarrow> 'c \<Rightarrow> bool"
  for crypto :: "'c Crypto" and uid tlfCryptKey ePrivKey k c where
  random_fails:
    "MakeRandomTLFCryptKeyServerHalf crypto c = (Inl err, c1) \<Longrightarrow>
     crypto_step_fails crypto uid tlfCryptKey ePrivKey k c err c1"
| mask_fails:
    "MakeRandomTLFCryptKeyServerHalf crypto c = (Inr serverHalf, c1) \<Longrightarrow>
     MaskTLFCryptKey crypto serverHalf tlfCryptKey c1 = (Inl err, c2) \<Longrightarrow>
     crypto_step_fails crypto uid tlfCryptKey ePrivKey k c err c2"
| encrypt_fails:
    "MakeRandomTLFCryptKeyServerHalf crypto c = (Inr serverHalf, c1) \<Longrightarrow>
     MaskTLFCryptKey crypto serverHalf tlfCryptKey c1 = (Inr clientHalf, c2) \<Longrightarrow>
     EncryptTLFCryptKeyClientHalf crypto ePrivKey k clientHalf c2 = (Inl err, c3) \<Longrightarrow>
     crypto_step_fails crypto uid tlfCryptKey ePrivKey k c err c3"
| server_half_id_fails:
    "MakeRandomTLFCryptKeyServerHalf crypto c = (Inr serverHalf, c1) \<Longrightarrow>
     MaskTLFCryptKey crypto serverHalf tlfCryptKey c1 = (Inr clientHalf, c2) \<Longrightarrow>
     EncryptTLFCryptKeyClientHalf crypto ePrivKey k clientHalf c2 = (Inr encryptedClientHalf, c3) \<Longrightarrow>
     GetTLFCryptKeyServerHalfID crypto uid (KID k) serverHalf c3 = (Inl err, c4) \<Longrightarrow>
     crypto_step_fails crypto uid tlfCryptKey ePrivKey k c err c4"

text \<open>
  The loop of \<^verbatim>\<open>fillInDeviceInfo\<close> (lines 65 to 103) over the remaining \<^verbatim>\<open>publicKeys\<close>. The
  bundle \<^verbatim>\<open>uckb\<close> is mutated in place by the source, so it is returned, also when the call
  fails. The two results are Go's: the first is \<open>None\<close> for a nil map, the second is
  \<open>None\<close> for a nil error.
\<close>

fun fillInDeviceInfo_loop ::
  "'c Crypto \<Rightarrow> UID \<Rightarrow> TLFCryptKey \<Rightarrow> TLFEphemeralPrivateKey \<Rightarrow> int \<Rightarrow> CryptPublicKey list \<Rightarrow>
   UserCryptKeyBundle \<Rightarrow> serverMap \<Rightarrow> 'c \<Rightarrow>
   (serverMap option \<times> error option) \<times> UserCryptKeyBundle \<times> 'c" where
  "fillInDeviceInfo_loop crypto uid tlfCryptKey ePrivKey ePubIndex [] uckb serverMap c =
     ((Some serverMap, None), uckb, c)"
| "fillInDeviceInfo_loop crypto uid tlfCryptKey ePrivKey ePubIndex (k # publicKeys) uckb serverMap c =
     (if uckb (KID k) \<noteq> None
      then fillInDeviceInfo_loop crypto uid tlfCryptKey ePrivKey ePubIndex publicKeys uckb serverMap c
      else
        case MakeRandomTLFCryptKeyServerHalf crypto c of
          (Inl err, c1) \<Rightarrow> ((None, Some err), uckb, c1)
        | (Inr serverHalf, c1) \<Rightarrow>
        (case MaskTLFCryptKey crypto serverHalf tlfCryptKey c1 of
          (Inl err, c2) \<Rightarrow> ((None, Some err), uckb, c2)
        | (Inr clientHalf, c2) \<Rightarrow>
        (case EncryptTLFCryptKeyClientHalf crypto ePrivKey k clientHalf c2 of
          (Inl err, c3) \<Rightarrow> ((None, Some err), uckb, c3)
        | (Inr encryptedClientHalf, c3) \<Rightarrow>
        (case GetTLFCryptKeyServerHalfID crypto uid (KID k) serverHalf c3 of
          (Inl err, c4) \<Rightarrow> ((None, Some err), uckb, c4)
        | (Inr serverHalfID, c4) \<Rightarrow>
            fillInDeviceInfo_loop crypto uid tlfCryptKey ePrivKey ePubIndex publicKeys
              (uckb(KID k \<mapsto>
                 \<lparr>ClientHalf = encryptedClientHalf, ServerHalfID = serverHalfID,
                  EPubKeyIndex = ePubIndex\<rparr>))
              (serverMap(KID k \<mapsto> serverHalf)) c4))))"

definition fillInDeviceInfo ::
  "'c Crypto \<Rightarrow> UID \<Rightarrow> TLFCryptKey \<Rightarrow> TLFEphemeralPrivateKey \<Rightarrow> int \<Rightarrow> CryptPublicKey list \<Rightarrow>
   UserCryptKeyBundle \<Rightarrow> 'c \<Rightarrow>
   (serverMap option \<times> error option) \<times> UserCryptKeyBundle \<times> 'c" where
  "fillInDeviceInfo crypto uid tlfCryptKey ePrivKey ePubIndex publicKeys uckb c =
     fillInDeviceInfo_loop crypto uid tlfCryptKey ePrivKey ePubIndex publicKeys uckb Map.empty c"

text \<open>
  The per-user bundle that \<^verbatim>\<open>cryptBundles[u]\<close> denotes at line 266: the one stored under
  \<open>u\<close>, or the empty one that lines 262 to 264 have just stored for a user without one.
\<close>

definition user_bundle :: "TLFKeyMap \<Rightarrow> UID \<Rightarrow> UserCryptKeyBundle" where
  "user_bundle cryptBundles u = (case cryptBundles u of None \<Rightarrow> Map.empty | Some b \<Rightarrow> b)"

text \<open>Go's \<^verbatim>\<open>len(m) > 0\<close> on a map that may be nil.\<close>

definition len_positive :: "('k \<rightharpoonup> 'v) option \<Rightarrow> bool" where
  "len_positive m = (case m of None \<Rightarrow> False | Some f \<Rightarrow> dom f \<noteq> {})"

text \<open>
  \<^verbatim>\<open>fillInDevicesAndServerMap\<close> ranges over the map \<^verbatim>\<open>cryptKeys\<close>: the list holds its entries
  in the order of the iteration. It mutates \<^verbatim>\<open>cryptBundles\<close> and \<^verbatim>\<open>newServerKeys\<close>, which are
  returned after the error. The per-user bundle is a map, so \<^verbatim>\<open>fillInDeviceInfo\<close> mutates
  the object that \<^verbatim>\<open>cryptBundles[u]\<close> holds: the model stores the returned bundle under
  \<open>u\<close>, also when the call failed. The parameter \<^verbatim>\<open>ePubKey\<close> is not used by the source.
\<close>

fun fillInDevicesAndServerMap ::
  "'c Crypto \<Rightarrow> int \<Rightarrow> (UID \<times> CryptPublicKey list) list \<Rightarrow> TLFKeyMap \<Rightarrow>
   TLFEphemeralPublicKey \<Rightarrow> TLFEphemeralPrivateKey \<Rightarrow> TLFCryptKey \<Rightarrow> serverKeyMap \<Rightarrow> 'c \<Rightarrow>
   error option \<times> TLFKeyMap \<times> serverKeyMap \<times> 'c" where
  "fillInDevicesAndServerMap crypto newIndex [] cryptBundles ePubKey ePrivKey tlfCryptKey
       newServerKeys c =
     (None, cryptBundles, newServerKeys, c)"
| "fillInDevicesAndServerMap crypto newIndex ((u, keys) # cryptKeys) cryptBundles ePubKey ePrivKey
       tlfCryptKey newServerKeys c =
     (let uckb = user_bundle cryptBundles u
      in case fillInDeviceInfo crypto u tlfCryptKey ePrivKey newIndex keys uckb c of
           ((serverMap, err), uckb', c') \<Rightarrow>
             if err \<noteq> None then (err, cryptBundles(u \<mapsto> uckb'), newServerKeys, c')
             else fillInDevicesAndServerMap crypto newIndex cryptKeys (cryptBundles(u \<mapsto> uckb'))
                    ePubKey ePrivKey tlfCryptKey
                    (if len_positive serverMap then newServerKeys(u \<mapsto> the serverMap)
                     else newServerKeys) c')"

text \<open>
  \<^verbatim>\<open>fillInDevices\<close> has a value receiver, but both fields of a \<^verbatim>\<open>TLFKeyBundle\<close> are pointers:
  the append to \<^verbatim>\<open>TLFEphemeralPublicKeys\<close> and the writes to the maps reach the caller's
  bundle, which is returned beside Go's two results.
\<close>

definition fillInDevices ::
  "'c Crypto \<Rightarrow> (UID \<times> CryptPublicKey list) list \<Rightarrow> (UID \<times> CryptPublicKey list) list \<Rightarrow>
   TLFEphemeralPublicKey \<Rightarrow> TLFEphemeralPrivateKey \<Rightarrow> TLFCryptKey \<Rightarrow> TLFKeyBundle \<Rightarrow> 'c \<Rightarrow>
   (serverKeyMap option \<times> error option) \<times> TLFKeyBundle \<times> 'c" where
  "fillInDevices crypto wKeys rKeys ePubKey ePrivKey tlfCryptKey tkb c =
     (let w0 = TLFWriterKeyBundle tkb;
          w1 = w0\<lparr>TLFEphemeralPublicKeys := TLFEphemeralPublicKeys w0 @ [ePubKey]\<rparr>;
          newIndex = int (length (TLFEphemeralPublicKeys w1)) - 1
      in case fillInDevicesAndServerMap crypto newIndex wKeys (WKeys w1) ePubKey ePrivKey
                tlfCryptKey Map.empty c of
           (err, wk, newServerKeys, c1) \<Rightarrow>
             let tkb1 = tkb\<lparr>TLFWriterKeyBundle := w1\<lparr>WKeys := wk\<rparr>\<rparr>
             in if err \<noteq> None then ((None, err), tkb1, c1)
                else
                  case fillInDevicesAndServerMap crypto newIndex rKeys
                         (RKeys (TLFReaderKeyBundle tkb1)) ePubKey ePrivKey tlfCryptKey
                         newServerKeys c1 of
                    (err, rk, newServerKeys, c2) \<Rightarrow>
                      let tkb2 = tkb1\<lparr>TLFReaderKeyBundle := (TLFReaderKeyBundle tkb1)\<lparr>RKeys := rk\<rparr>\<rparr>
                      in if err \<noteq> None then ((None, err), tkb2, c2)
                         else ((Some newServerKeys, None), tkb2, c2))"

subsection \<open>The invariant on ephemeral-key indices\<close>

text \<open>
  Section 3 of the specification: every \<^verbatim>\<open>EPubKeyIndex\<close> stored in a per-device record,
  writer or reader side, is an index into the writer bundle's \<^verbatim>\<open>TLFEphemeralPublicKeys\<close>.
\<close>

definition index_in_range :: "TLFKeyBundle \<Rightarrow> TLFCryptKeyInfo \<Rightarrow> bool" where
  "index_in_range tkb info =
     (0 \<le> EPubKeyIndex info \<and>
      EPubKeyIndex info < int (length (TLFEphemeralPublicKeys (TLFWriterKeyBundle tkb))))"

definition indices_valid :: "TLFKeyBundle \<Rightarrow> bool" where
  "indices_valid tkb =
     ((\<forall>u b k info. WKeys (TLFWriterKeyBundle tkb) u = Some b \<longrightarrow> b k = Some info \<longrightarrow>
          index_in_range tkb info) \<and>
      (\<forall>u b k info. RKeys (TLFReaderKeyBundle tkb) u = Some b \<longrightarrow> b k = Some info \<longrightarrow>
          index_in_range tkb info))"

subsection \<open>What a provisioning call adds\<close>

text \<open>
  The devices of a user that have no record in \<open>tkm\<close> and have one in \<open>tkm'\<close>: the
  devices newly provisioned between the two.
\<close>

definition new_devices :: "TLFKeyMap \<Rightarrow> TLFKeyMap \<Rightarrow> UID \<Rightarrow> KID set" where
  "new_devices tkm tkm' u =
     {d. device_record tkm u d = None \<and> device_record tkm' u d \<noteq> None}"

text \<open>
  The record \<open>info\<close> and the server half were produced together by the four crypto
  calls for the device with key id \<open>d\<close>, in some state of the capability: the record
  holds the encryption of the masked server half and the id computed from the server
  half.
\<close>

definition built_from ::
  "'c Crypto \<Rightarrow> UID \<Rightarrow> TLFCryptKey \<Rightarrow> TLFEphemeralPrivateKey \<Rightarrow> int \<Rightarrow> KID \<Rightarrow>
   TLFCryptKeyInfo \<Rightarrow> TLFCryptKeyServerHalf \<Rightarrow> bool" where
  "built_from crypto uid tlfCryptKey ePrivKey ePubIndex d info serverHalf =
     (\<exists>c c'. provision_device crypto uid tlfCryptKey ePrivKey ePubIndex \<lparr>KID = d\<rparr> c =
        (Inr (info, serverHalf), c'))"

subsection \<open>Example data\<close>

text \<open>
  A bundle in which alice writes from her laptop and reads from her phone, and bob reads
  from a tablet. Two provisioning events have happened, so there are two ephemeral keys.
\<close>

definition laptop_info :: TLFCryptKeyInfo where
  "laptop_info = \<lparr>ClientHalf = [0x11], ServerHalfID = \<lparr>ID = [0x21]\<rparr>, EPubKeyIndex = 0\<rparr>"

definition phone_info :: TLFCryptKeyInfo where
  "phone_info = \<lparr>ClientHalf = [0x12], ServerHalfID = \<lparr>ID = [0x22]\<rparr>, EPubKeyIndex = 1\<rparr>"

definition tablet_info :: TLFCryptKeyInfo where
  "tablet_info = \<lparr>ClientHalf = [0x13], ServerHalfID = \<lparr>ID = [0x23]\<rparr>, EPubKeyIndex = 1\<rparr>"

definition example_writer :: TLFWriterKeyBundle where
  "example_writer =
     \<lparr>WKeys = [''alice'' \<mapsto> [''laptop'' \<mapsto> laptop_info]], TLFPublicKey = [0x01],
      TLFEphemeralPublicKeys = [[0xE1], [0xE2]]\<rparr>"

definition example_reader :: TLFReaderKeyBundle where
  "example_reader =
     \<lparr>RKeys = [''alice'' \<mapsto> [''phone'' \<mapsto> phone_info], ''bob'' \<mapsto> [''tablet'' \<mapsto> tablet_info]]\<rparr>"

definition example_bundle :: TLFKeyBundle where
  "example_bundle = \<lparr>TLFWriterKeyBundle = example_writer, TLFReaderKeyBundle = example_reader\<rparr>"

text \<open>
  A bundle as a decoder can hand it over: bob's record names the third ephemeral key of
  a sequence that holds two.
\<close>

definition stale_info :: TLFCryptKeyInfo where
  "stale_info = \<lparr>ClientHalf = [0x13], ServerHalfID = \<lparr>ID = [0x23]\<rparr>, EPubKeyIndex = 2\<rparr>"

definition corrupt_bundle :: TLFKeyBundle where
  "corrupt_bundle =
     \<lparr>TLFWriterKeyBundle = example_writer,
      TLFReaderKeyBundle = \<lparr>RKeys = [''bob'' \<mapsto> [''tablet'' \<mapsto> stale_info]]\<rparr>\<rparr>"

text \<open>
  A capability for the examples. Its state is the list of server halves it will still
  hand out; with none left the random generator fails. Masking is the bytewise
  exclusive or, encryption fails for the key id \<open>''revoked''\<close>, and the id of a server
  half is the server half behind a tag byte.
\<close>

definition test_crypto :: "TLFCryptKeyServerHalf list Crypto" where
  "test_crypto =
     \<lparr>MakeRandomTLFCryptKeyServerHalf =
        (\<lambda>c. case c of [] \<Rightarrow> (Inl (CryptoError ''no entropy''), [])
              | serverHalf # rest \<Rightarrow> (Inr serverHalf, rest)),
      MaskTLFCryptKey = (\<lambda>serverHalf tlfCryptKey c. (Inr (map2 xor serverHalf tlfCryptKey), c)),
      EncryptTLFCryptKeyClientHalf =
        (\<lambda>ePrivKey k clientHalf c.
           if KID k = ''revoked'' then (Inl (CryptoError ''bad device key''), c)
           else (Inr (ePrivKey @ clientHalf), c)),
      GetTLFCryptKeyServerHalfID = (\<lambda>uid kid serverHalf c. (Inr \<lparr>ID = 0xFF # serverHalf\<rparr>, c))\<rparr>"

definition NewTLFKeyBundle :: TLFKeyBundle where
  "NewTLFKeyBundle =
     \<lparr>TLFWriterKeyBundle = \<lparr>WKeys = Map.empty, TLFPublicKey = [], TLFEphemeralPublicKeys = []\<rparr>,
      TLFReaderKeyBundle = \<lparr>RKeys = Map.empty\<rparr>\<rparr>"

text \<open>
  alice's devices for the provisioning examples: the laptop has a record already, the
  phone gets one from the server half \<open>[0x05]\<close>, the folder key \<open>[0x0F]\<close> and the
  ephemeral private key \<open>[0xA0]\<close>.
\<close>

definition alice_devices :: "CryptPublicKey list" where
  "alice_devices = [\<lparr>KID = ''laptop''\<rparr>, \<lparr>KID = ''phone''\<rparr>]"

definition alice_before :: UserCryptKeyBundle where
  "alice_before = [''laptop'' \<mapsto> laptop_info]"

definition new_phone_info :: TLFCryptKeyInfo where
  "new_phone_info =
     \<lparr>ClientHalf = [0xA0, 0x0A], ServerHalfID = \<lparr>ID = [0xFF, 0x05]\<rparr>, EPubKeyIndex = 1\<rparr>"

definition alice_after :: UserCryptKeyBundle where
  "alice_after = [''laptop'' \<mapsto> laptop_info, ''phone'' \<mapsto> new_phone_info]"

text \<open>
  A device list whose second key cannot be encrypted for, and the record the first
  device gets at index 0 before the call fails.
\<close>

definition failing_devices :: "CryptPublicKey list" where
  "failing_devices = [\<lparr>KID = ''laptop''\<rparr>, \<lparr>KID = ''revoked''\<rparr>, \<lparr>KID = ''phone''\<rparr>]"

definition first_laptop_info :: TLFCryptKeyInfo where
  "first_laptop_info =
     \<lparr>ClientHalf = [0xA0, 0x0A], ServerHalfID = \<lparr>ID = [0xFF, 0x05]\<rparr>, EPubKeyIndex = 0\<rparr>"

text \<open>
  A provisioning event on \<open>example_bundle\<close>: carol becomes a writer with a desktop, and
  bob, a reader with a tablet, adds a watch. The ephemeral public key \<open>[0xE3]\<close> is the
  third of the bundle, so the new records carry index 2.
\<close>

definition desktop_info :: TLFCryptKeyInfo where
  "desktop_info =
     \<lparr>ClientHalf = [0xA0, 0x0A], ServerHalfID = \<lparr>ID = [0xFF, 0x05]\<rparr>, EPubKeyIndex = 2\<rparr>"

definition watch_info :: TLFCryptKeyInfo where
  "watch_info =
     \<lparr>ClientHalf = [0xA0, 0x09], ServerHalfID = \<lparr>ID = [0xFF, 0x06]\<rparr>, EPubKeyIndex = 2\<rparr>"

definition provisioned_bundle :: TLFKeyBundle where
  "provisioned_bundle =
     \<lparr>TLFWriterKeyBundle =
        \<lparr>WKeys = [''alice'' \<mapsto> [''laptop'' \<mapsto> laptop_info],
                  ''carol'' \<mapsto> [''desktop'' \<mapsto> desktop_info]],
         TLFPublicKey = [0x01],
         TLFEphemeralPublicKeys = [[0xE1], [0xE2], [0xE3]]\<rparr>,
      TLFReaderKeyBundle =
        \<lparr>RKeys = [''alice'' \<mapsto> [''phone'' \<mapsto> phone_info],
                  ''bob'' \<mapsto> [''tablet'' \<mapsto> tablet_info, ''watch'' \<mapsto> watch_info]]\<rparr>\<rparr>"

definition new_writers :: "(UID \<times> CryptPublicKey list) list" where
  "new_writers = [(''carol'', [\<lparr>KID = ''desktop''\<rparr>])]"

definition new_readers :: "(UID \<times> CryptPublicKey list) list" where
  "new_readers = [(''bob'', [\<lparr>KID = ''tablet''\<rparr>, \<lparr>KID = ''watch''\<rparr>])]"

text \<open>
  What a failed first provisioning of a new bundle leaves: the ephemeral key \<open>[0xE1]\<close>
  and the record of alice's laptop, written before the crypto step for the next device
  failed.
\<close>

definition half_provisioned :: TLFKeyBundle where
  "half_provisioned =
     \<lparr>TLFWriterKeyBundle =
        \<lparr>WKeys = [''alice'' \<mapsto> [''laptop'' \<mapsto> first_laptop_info]], TLFPublicKey = [],
         TLFEphemeralPublicKeys = [[0xE1]]\<rparr>,
      TLFReaderKeyBundle = \<lparr>RKeys = Map.empty\<rparr>\<rparr>"

definition half_provisioned_reader :: TLFKeyBundle where
  "half_provisioned_reader =
     \<lparr>TLFWriterKeyBundle =
        \<lparr>WKeys = [''alice'' \<mapsto> [''laptop'' \<mapsto> first_laptop_info]], TLFPublicKey = [],
         TLFEphemeralPublicKeys = [[0xE1]]\<rparr>,
      TLFReaderKeyBundle = \<lparr>RKeys = [''bob'' \<mapsto> Map.empty]\<rparr>\<rparr>"

section \<open>Properties\<close>

subsection \<open>Generation histories\<close>

lemma slice_index_latest:
  "xs \<noteq> [] \<Longrightarrow> slice_index xs (int (length xs) - 1) = Returned (last xs)"
  by (cases xs rule: rev_cases) (simp_all add: slice_index_def)

lemma nonempty_generation: "xs \<noteq> [] \<Longrightarrow> \<not> int (length xs) < 1"
  by (cases xs) simp_all

text \<open>
  C6. \<^verbatim>\<open>GetKeyGeneration\<close> is the length of the history, for writers and for readers. On the
  empty history \<^verbatim>\<open>IsWriter\<close> and \<^verbatim>\<open>IsReader\<close> return false for every user and device. On a
  history that is not empty the index \<^verbatim>\<open>GetKeyGeneration() - 1\<close> is in range, the bundle
  there is the one appended last, and the two methods return its membership answer.
\<close>

theorem generations_latest_bundle:
  "TLFWriterKeyGenerations_GetKeyGeneration wg = int (length wg) \<and>
   TLFReaderKeyGenerations_GetKeyGeneration rg = int (length rg) \<and>
   TLFWriterKeyGenerations_IsWriter [] user deviceKID = Returned False \<and>
   TLFReaderKeyGenerations_IsReader [] user deviceKID = Returned False \<and>
   (wg \<noteq> [] \<longrightarrow>
      slice_index wg (TLFWriterKeyGenerations_GetKeyGeneration wg - 1) = Returned (last wg) \<and>
      TLFWriterKeyGenerations_IsWriter wg user deviceKID =
        Returned (TLFWriterKeyBundle_IsWriter (last wg) user deviceKID)) \<and>
   (rg \<noteq> [] \<longrightarrow>
      slice_index rg (TLFReaderKeyGenerations_GetKeyGeneration rg - 1) = Returned (last rg) \<and>
      TLFReaderKeyGenerations_IsReader rg user deviceKID =
        Returned (TLFReaderKeyBundle_IsReader (last rg) user deviceKID))"
  by (simp add: TLFWriterKeyGenerations_GetKeyGeneration_def
      TLFReaderKeyGenerations_GetKeyGeneration_def TLFWriterKeyGenerations_IsWriter_def
      TLFReaderKeyGenerations_IsReader_def slice_index_latest nonempty_generation
      bind_outcome_def)

theorem generations_latest_bundle_witness:
  "TLFWriterKeyGenerations_IsWriter [\<lparr>WKeys = Map.empty, TLFPublicKey = [], TLFEphemeralPublicKeys = []\<rparr>,
      example_writer] ''alice'' ''laptop'' = Returned True \<and>
   TLFReaderKeyGenerations_IsReader [example_reader, \<lparr>RKeys = Map.empty\<rparr>] ''bob'' ''tablet'' =
     Returned False"
  using generations_latest_bundle
    [of "[\<lparr>WKeys = Map.empty, TLFPublicKey = [], TLFEphemeralPublicKeys = []\<rparr>, example_writer]"
        "[example_reader, \<lparr>RKeys = Map.empty\<rparr>]" "''alice''" "''laptop''"]
    generations_latest_bundle
    [of "[\<lparr>WKeys = Map.empty, TLFPublicKey = [], TLFEphemeralPublicKeys = []\<rparr>, example_writer]"
        "[example_reader, \<lparr>RKeys = Map.empty\<rparr>]" "''bob''" "''tablet''"]
  by (simp add: TLFWriterKeyBundle_IsWriter_def TLFReaderKeyBundle_IsReader_def
      device_record_def example_writer_def)

subsection \<open>Lookup of a per-device record\<close>

text \<open>
  C2, as stated, fails. alice has a writer bundle (for her laptop) and a reader bundle
  that holds a record for her phone. The lookup of the phone stops at the writer bundle,
  which has no record for it, and reports \<^verbatim>\<open>found == false\<close>: the record in the reader
  bundle is never reached.
\<close>

theorem GetTLFCryptKeyInfo_reader_record_missed:
  "TLFReaderKeyBundle_IsReader (TLFReaderKeyBundle example_bundle) ''alice'' ''phone'' \<and>
   the (RKeys (TLFReaderKeyBundle example_bundle) ''alice'') ''phone'' = Some phone_info \<and>
   GetTLFCryptKeyInfo example_bundle ''alice'' \<lparr>KID = ''phone''\<rparr> = (None, None)"
  by (simp add: GetTLFCryptKeyInfo_def example_bundle_def example_writer_def example_reader_def
      TLFReaderKeyBundle_IsReader_def device_record_def)

text \<open>
  C2, amended. \<^verbatim>\<open>GetTLFCryptKeyInfo\<close> never returns an error. It chooses the per-user bundle
  by the user alone: when the user has a writer per-user bundle, the answer is that
  bundle's record for the device (found exactly when that bundle has one), whatever the
  reader side holds; when the user has no writer per-user bundle but a reader one, the
  answer is the reader bundle's record for the device; a user in neither map yields
  \<^verbatim>\<open>found == false\<close>.
\<close>

theorem GetTLFCryptKeyInfo_by_user:
  "snd (GetTLFCryptKeyInfo tkb user key) = None \<and>
   (\<forall>u. WKeys (TLFWriterKeyBundle tkb) user = Some u \<longrightarrow>
        fst (GetTLFCryptKeyInfo tkb user key) = u (KID key)) \<and>
   (\<forall>u. WKeys (TLFWriterKeyBundle tkb) user = None \<longrightarrow>
        RKeys (TLFReaderKeyBundle tkb) user = Some u \<longrightarrow>
        fst (GetTLFCryptKeyInfo tkb user key) = u (KID key)) \<and>
   (WKeys (TLFWriterKeyBundle tkb) user = None \<longrightarrow> RKeys (TLFReaderKeyBundle tkb) user = None \<longrightarrow>
        GetTLFCryptKeyInfo tkb user key = (None, None))"
  by (simp add: GetTLFCryptKeyInfo_def Let_def split: option.splits)

theorem GetTLFCryptKeyInfo_by_user_witness:
  "fst (GetTLFCryptKeyInfo example_bundle ''alice'' \<lparr>KID = ''laptop''\<rparr>) = Some laptop_info \<and>
   fst (GetTLFCryptKeyInfo example_bundle ''bob'' \<lparr>KID = ''tablet''\<rparr>) = Some tablet_info \<and>
   GetTLFCryptKeyInfo example_bundle ''carol'' \<lparr>KID = ''laptop''\<rparr> = (None, None)"
  using GetTLFCryptKeyInfo_by_user [of example_bundle "''alice''" "\<lparr>KID = ''laptop''\<rparr>"]
    GetTLFCryptKeyInfo_by_user [of example_bundle "''bob''" "\<lparr>KID = ''tablet''\<rparr>"]
    GetTLFCryptKeyInfo_by_user [of example_bundle "''carol''" "\<lparr>KID = ''laptop''\<rparr>"]
  by (simp add: example_bundle_def example_writer_def example_reader_def)

subsection \<open>Lookup of the ephemeral public key\<close>

text \<open>
  C8, as stated, fails: it promises the element whenever a record is found. In
  \<open>corrupt_bundle\<close> the record of bob's tablet is found, its stored index is 2, the
  sequence has two keys, and the indexing expression of line 336 panics instead of
  returning an element.
\<close>

theorem GetTLFEphemeralPublicKey_found_but_panics:
  "fst (GetTLFCryptKeyInfo corrupt_bundle ''bob'' \<lparr>KID = ''tablet''\<rparr>) = Some stale_info \<and>
   length (TLFEphemeralPublicKeys (TLFWriterKeyBundle corrupt_bundle)) = 2 \<and>
   EPubKeyIndex stale_info = 2 \<and>
   GetTLFEphemeralPublicKey corrupt_bundle ''bob'' \<lparr>KID = ''tablet''\<rparr> = IndexPanic"
  by (simp add: GetTLFEphemeralPublicKey_def GetTLFCryptKeyInfo_def corrupt_bundle_def
      example_writer_def stale_info_def slice_index_def)

text \<open>
  C8, amended. \<^verbatim>\<open>GetTLFEphemeralPublicKey\<close> fails with
  \<^verbatim>\<open>TLFEphemeralPublicKeyNotFoundError{user, key}\<close> exactly when \<^verbatim>\<open>GetTLFCryptKeyInfo\<close> finds no
  record, and it returns no other error. When a record is found and its stored
  \<^verbatim>\<open>EPubKeyIndex\<close> is an index into the writer bundle's \<^verbatim>\<open>TLFEphemeralPublicKeys\<close>, the call
  returns the element at that index; when the stored index is out of range, the call
  panics.
\<close>

theorem GetTLFEphemeralPublicKey_not_found_iff:
  "(GetTLFEphemeralPublicKey tkb user key =
      Failed (TLFEphemeralPublicKeyNotFoundError user (KID key))
    \<longleftrightarrow> fst (GetTLFCryptKeyInfo tkb user key) = None) \<and>
   (\<forall>e. GetTLFEphemeralPublicKey tkb user key = Failed e \<longrightarrow>
        e = TLFEphemeralPublicKeyNotFoundError user (KID key)) \<and>
   (\<forall>info. fst (GetTLFCryptKeyInfo tkb user key) = Some info \<longrightarrow>
        0 \<le> EPubKeyIndex info \<longrightarrow>
        EPubKeyIndex info < int (length (TLFEphemeralPublicKeys (TLFWriterKeyBundle tkb))) \<longrightarrow>
        GetTLFEphemeralPublicKey tkb user key =
          Returned (TLFEphemeralPublicKeys (TLFWriterKeyBundle tkb) ! nat (EPubKeyIndex info))) \<and>
   (\<forall>info. fst (GetTLFCryptKeyInfo tkb user key) = Some info \<longrightarrow>
        \<not> (0 \<le> EPubKeyIndex info \<and>
           EPubKeyIndex info < int (length (TLFEphemeralPublicKeys (TLFWriterKeyBundle tkb)))) \<longrightarrow>
        GetTLFEphemeralPublicKey tkb user key = IndexPanic)"
  by (auto simp add: GetTLFEphemeralPublicKey_def GetTLFCryptKeyInfo_def slice_index_def Let_def
      split: option.splits)

theorem GetTLFEphemeralPublicKey_not_found_iff_witness:
  "GetTLFEphemeralPublicKey example_bundle ''bob'' \<lparr>KID = ''tablet''\<rparr> = Returned [0xE2] \<and>
   GetTLFEphemeralPublicKey example_bundle ''alice'' \<lparr>KID = ''phone''\<rparr> =
     Failed (TLFEphemeralPublicKeyNotFoundError ''alice'' ''phone'')"
proof -
  have found: "fst (GetTLFCryptKeyInfo example_bundle ''bob'' \<lparr>KID = ''tablet''\<rparr>) = Some tablet_info"
    by (simp add: GetTLFCryptKeyInfo_def example_bundle_def example_writer_def example_reader_def)
  have missing: "fst (GetTLFCryptKeyInfo example_bundle ''alice'' \<lparr>KID = ''phone''\<rparr>) = None"
    by (simp add: GetTLFCryptKeyInfo_def example_bundle_def example_writer_def example_reader_def)
  have lower: "0 \<le> EPubKeyIndex tablet_info"
    by (simp add: tablet_info_def)
  have upper:
    "EPubKeyIndex tablet_info < int (length (TLFEphemeralPublicKeys (TLFWriterKeyBundle example_bundle)))"
    by (simp add: tablet_info_def example_bundle_def example_writer_def)
  have element:
    "TLFEphemeralPublicKeys (TLFWriterKeyBundle example_bundle) ! nat (EPubKeyIndex tablet_info) = [0xE2]"
    by (simp add: tablet_info_def example_bundle_def example_writer_def)
  have kid: "KID \<lparr>KID = ''phone''\<rparr> = ''phone''"
    by simp
  from GetTLFEphemeralPublicKey_not_found_iff [of example_bundle "''bob''" "\<lparr>KID = ''tablet''\<rparr>"]
    found lower upper element
  have bob: "GetTLFEphemeralPublicKey example_bundle ''bob'' \<lparr>KID = ''tablet''\<rparr> = Returned [0xE2]"
    by metis
  from GetTLFEphemeralPublicKey_not_found_iff [of example_bundle "''alice''" "\<lparr>KID = ''phone''\<rparr>"]
    missing kid
  have alice: "GetTLFEphemeralPublicKey example_bundle ''alice'' \<lparr>KID = ''phone''\<rparr> =
      Failed (TLFEphemeralPublicKeyNotFoundError ''alice'' ''phone'')"
    by metis
  from bob alice show ?thesis
    by (rule conjI)
qed

lemma GetTLFCryptKeyInfo_valid:
  "indices_valid tkb \<Longrightarrow> fst (GetTLFCryptKeyInfo tkb user key) = Some info \<Longrightarrow>
   index_in_range tkb info"
  unfolding indices_valid_def GetTLFCryptKeyInfo_def Let_def
  by (auto split: option.splits)

lemma GetTLFCryptKeyInfo_no_error: "snd (GetTLFCryptKeyInfo tkb user key) = None"
  by (simp add: GetTLFCryptKeyInfo_def Let_def split: option.splits)

lemma example_bundle_valid: "indices_valid example_bundle"
  by (auto simp add: indices_valid_def index_in_range_def example_bundle_def example_writer_def
      example_reader_def laptop_info_def phone_info_def tablet_info_def split: if_splits)

text \<open>
  C9. In a bundle whose stored indices are all valid, \<^verbatim>\<open>GetTLFEphemeralPublicKey\<close> never
  panics: whenever a record is found, its index is in range and the call returns the
  element at that index.
\<close>

theorem GetTLFEphemeralPublicKey_in_range:
  assumes "indices_valid tkb"
  shows "GetTLFEphemeralPublicKey tkb user key \<noteq> IndexPanic \<and>
         (\<forall>info. fst (GetTLFCryptKeyInfo tkb user key) = Some info \<longrightarrow>
            0 \<le> EPubKeyIndex info \<and>
            EPubKeyIndex info < int (length (TLFEphemeralPublicKeys (TLFWriterKeyBundle tkb))) \<and>
            GetTLFEphemeralPublicKey tkb user key =
              Returned (TLFEphemeralPublicKeys (TLFWriterKeyBundle tkb) ! nat (EPubKeyIndex info)))"
proof (cases "fst (GetTLFCryptKeyInfo tkb user key)")
  case None
  with GetTLFCryptKeyInfo_no_error [of tkb user key] show ?thesis
    by (cases "GetTLFCryptKeyInfo tkb user key") (simp add: GetTLFEphemeralPublicKey_def Let_def)
next
  case (Some info)
  with GetTLFCryptKeyInfo_no_error [of tkb user key] GetTLFCryptKeyInfo_valid [OF assms Some]
  show ?thesis
    by (cases "GetTLFCryptKeyInfo tkb user key")
       (simp add: GetTLFEphemeralPublicKey_def slice_index_def index_in_range_def Let_def)
qed

theorem GetTLFEphemeralPublicKey_in_range_witness:
  "indices_valid example_bundle \<and>
   fst (GetTLFCryptKeyInfo example_bundle ''alice'' \<lparr>KID = ''laptop''\<rparr>) = Some laptop_info \<and>
   GetTLFEphemeralPublicKey example_bundle ''alice'' \<lparr>KID = ''laptop''\<rparr> = Returned [0xE1]"
proof -
  have found: "fst (GetTLFCryptKeyInfo example_bundle ''alice'' \<lparr>KID = ''laptop''\<rparr>) = Some laptop_info"
    by (simp add: GetTLFCryptKeyInfo_def example_bundle_def example_writer_def example_reader_def)
  have eks: "TLFEphemeralPublicKeys (TLFWriterKeyBundle example_bundle) = [[0xE1], [0xE2]]"
    by (simp add: example_bundle_def example_writer_def)
  have idx: "EPubKeyIndex laptop_info = 0"
    by (simp add: laptop_info_def)
  from found eks idx
    GetTLFEphemeralPublicKey_in_range [OF example_bundle_valid, of "''alice''" "\<lparr>KID = ''laptop''\<rparr>"]
  have "GetTLFEphemeralPublicKey example_bundle ''alice'' \<lparr>KID = ''laptop''\<rparr> =
      Returned ([[0xE1], [0xE2]] ! nat 0)"
    by metis
  then have "GetTLFEphemeralPublicKey example_bundle ''alice'' \<lparr>KID = ''laptop''\<rparr> = Returned [0xE1]"
    by simp
  with example_bundle_valid found show ?thesis
    by blast
qed

subsection \<open>The loop of fillInDeviceInfo\<close>

lemma fillInDeviceInfo_loop_step:
  "fillInDeviceInfo_loop crypto uid tlfCryptKey ePrivKey ePubIndex (k # publicKeys) uckb serverMap c =
     (if uckb (KID k) \<noteq> None
      then fillInDeviceInfo_loop crypto uid tlfCryptKey ePrivKey ePubIndex publicKeys uckb serverMap c
      else case provision_device crypto uid tlfCryptKey ePrivKey ePubIndex k c of
             (Inl err, c') \<Rightarrow> ((None, Some err), uckb, c')
           | (Inr (info, serverHalf), c') \<Rightarrow>
               fillInDeviceInfo_loop crypto uid tlfCryptKey ePrivKey ePubIndex publicKeys
                 (uckb(KID k \<mapsto> info)) (serverMap(KID k \<mapsto> serverHalf)) c')"
  by (simp add: provision_device_def split: prod.splits sum.splits)

lemma provision_device_index:
  "provision_device crypto uid tlfCryptKey ePrivKey ePubIndex k c = (Inr (info, serverHalf), c') \<Longrightarrow>
   EPubKeyIndex info = ePubIndex"
  by (auto simp add: provision_device_def split: prod.splits sum.splits)

lemma crypto_step_fails_iff:
  "crypto_step_fails crypto uid tlfCryptKey ePrivKey k c err c' \<longleftrightarrow>
   provision_device crypto uid tlfCryptKey ePrivKey ePubIndex k c = (Inl err, c')"
proof
  assume "crypto_step_fails crypto uid tlfCryptKey ePrivKey k c err c'"
  then show "provision_device crypto uid tlfCryptKey ePrivKey ePubIndex k c = (Inl err, c')"
    by cases (simp_all add: provision_device_def)
next
  assume "provision_device crypto uid tlfCryptKey ePrivKey ePubIndex k c = (Inl err, c')"
  then show "crypto_step_fails crypto uid tlfCryptKey ePrivKey k c err c'"
    by (auto simp add: provision_device_def split: prod.splits sum.splits
        intro: crypto_step_fails.intros)
qed

declare fillInDeviceInfo_loop.simps(2) [simp del]

lemma loop_Cons_cases [case_names skip fail ok]:
  obtains
    (skip) "uckb (KID k) \<noteq> None"
      "fillInDeviceInfo_loop crypto uid tlfCryptKey ePrivKey ePubIndex (k # ks) uckb serverMap c =
       fillInDeviceInfo_loop crypto uid tlfCryptKey ePrivKey ePubIndex ks uckb serverMap c"
  | (fail) err c1 where "uckb (KID k) = None"
      "provision_device crypto uid tlfCryptKey ePrivKey ePubIndex k c = (Inl err, c1)"
      "fillInDeviceInfo_loop crypto uid tlfCryptKey ePrivKey ePubIndex (k # ks) uckb serverMap c =
       ((None, Some err), uckb, c1)"
  | (ok) info serverHalf c1 where "uckb (KID k) = None"
      "provision_device crypto uid tlfCryptKey ePrivKey ePubIndex k c = (Inr (info, serverHalf), c1)"
      "fillInDeviceInfo_loop crypto uid tlfCryptKey ePrivKey ePubIndex (k # ks) uckb serverMap c =
       fillInDeviceInfo_loop crypto uid tlfCryptKey ePrivKey ePubIndex ks
         (uckb(KID k \<mapsto> info)) (serverMap(KID k \<mapsto> serverHalf)) c1"
proof (cases "uckb (KID k) \<noteq> None")
  case True
  then show ?thesis using skip by (simp add: fillInDeviceInfo_loop_step)
next
  case False
  show ?thesis
  proof (cases "provision_device crypto uid tlfCryptKey ePrivKey ePubIndex k c")
    case (Pair res c1)
    show ?thesis
    proof (cases res)
      case (Inl err)
      with False Pair show ?thesis using fail by (simp add: fillInDeviceInfo_loop_step)
    next
      case (Inr p)
      with False Pair show ?thesis using ok [of "fst p" "snd p" c1]
        by (simp add: fillInDeviceInfo_loop_step split: prod.splits)
    qed
  qed
qed

lemma loop_keeps_record:
  "fillInDeviceInfo_loop crypto uid tlfCryptKey ePrivKey ePubIndex publicKeys uckb serverMap c =
     (r, uckb', c') \<Longrightarrow>
   uckb d = Some info \<Longrightarrow> uckb' d = Some info"
proof (induction publicKeys arbitrary: uckb serverMap c)
  case Nil
  then show ?case by simp
next
  case (Cons k ks)
  show ?case
  proof (cases rule: loop_Cons_cases [of uckb k crypto uid tlfCryptKey ePrivKey ePubIndex ks serverMap c])
    case skip
    with Cons.prems(1) have rest: "fillInDeviceInfo_loop crypto uid tlfCryptKey ePrivKey ePubIndex ks uckb serverMap c = (r, uckb', c')"
      by simp
    from Cons.IH [OF rest Cons.prems(2)] show ?thesis .
  next
    case (fail err c1)
    with Cons.prems show ?thesis by simp
  next
    case (ok info1 serverHalf c1)
    with Cons.prems(1) have rest: "fillInDeviceInfo_loop crypto uid tlfCryptKey ePrivKey ePubIndex ks (uckb(KID k \<mapsto> info1))
        (serverMap(KID k \<mapsto> serverHalf)) c1 = (r, uckb', c')"
      by simp
    from ok(1) Cons.prems(2) have "(uckb(KID k \<mapsto> info1)) d = Some info" by auto
    from Cons.IH [OF rest this] show ?thesis .
  qed
qed

lemma loop_skips_in_map:
  "fillInDeviceInfo_loop crypto uid tlfCryptKey ePrivKey ePubIndex publicKeys uckb serverMap c =
     ((Some serverMap', e), uckb', c') \<Longrightarrow>
   uckb d \<noteq> None \<Longrightarrow> serverMap' d = serverMap d"
proof (induction publicKeys arbitrary: uckb serverMap c)
  case Nil
  then show ?case by simp
next
  case (Cons k ks)
  show ?case
  proof (cases rule: loop_Cons_cases [of uckb k crypto uid tlfCryptKey ePrivKey ePubIndex ks serverMap c])
    case skip
    with Cons.prems(1) have rest: "fillInDeviceInfo_loop crypto uid tlfCryptKey ePrivKey ePubIndex ks uckb serverMap c = ((Some serverMap', e), uckb', c')"
      by simp
    from Cons.IH [OF rest Cons.prems(2)] show ?thesis .
  next
    case (fail err c1)
    with Cons.prems show ?thesis by simp
  next
    case (ok info1 serverHalf c1)
    with Cons.prems(1) have rest: "fillInDeviceInfo_loop crypto uid tlfCryptKey ePrivKey ePubIndex ks (uckb(KID k \<mapsto> info1))
        (serverMap(KID k \<mapsto> serverHalf)) c1 = ((Some serverMap', e), uckb', c')"
      by simp
    from ok(1) Cons.prems(2) have ne: "d \<noteq> KID k" by auto
    then have "(uckb(KID k \<mapsto> info1)) d \<noteq> None" using Cons.prems(2) by simp
    from Cons.IH [OF rest this] ne show ?thesis by simp
  qed
qed

lemma loop_new_index:
  "fillInDeviceInfo_loop crypto uid tlfCryptKey ePrivKey ePubIndex publicKeys uckb serverMap c =
     (r, uckb', c') \<Longrightarrow>
   uckb d = None \<Longrightarrow> uckb' d = Some info \<Longrightarrow> EPubKeyIndex info = ePubIndex"
proof (induction publicKeys arbitrary: uckb serverMap c)
  case Nil
  then show ?case by simp
next
  case (Cons k ks)
  show ?case
  proof (cases rule: loop_Cons_cases [of uckb k crypto uid tlfCryptKey ePrivKey ePubIndex ks serverMap c])
    case skip
    with Cons show ?thesis by simp
  next
    case (fail err c1)
    with Cons.prems show ?thesis by simp
  next
    case (ok info1 serverHalf c1)
    from ok Cons.prems(1)
    have rest: "fillInDeviceInfo_loop crypto uid tlfCryptKey ePrivKey ePubIndex ks
        (uckb(KID k \<mapsto> info1)) (serverMap(KID k \<mapsto> serverHalf)) c1 = (r, uckb', c')"
      by simp
    show ?thesis
    proof (cases "d = KID k")
      case True
      with loop_keeps_record [OF rest, of d info1] Cons.prems(3) provision_device_index [OF ok(2)]
      show ?thesis by simp
    next
      case False
      with Cons.IH [OF rest] Cons.prems show ?thesis by simp
    qed
  qed
qed

lemma loop_result_shape:
  "fillInDeviceInfo_loop crypto uid tlfCryptKey ePrivKey ePubIndex publicKeys uckb serverMap c =
     ((m, e), uckb', c') \<Longrightarrow>
   (m = None \<longleftrightarrow> e \<noteq> None)"
proof (induction publicKeys arbitrary: uckb serverMap c)
  case Nil
  then show ?case by auto
next
  case (Cons k ks)
  show ?case
  proof (cases rule: loop_Cons_cases [of uckb k crypto uid tlfCryptKey ePrivKey ePubIndex ks serverMap c])
    case skip
    with Cons.prems(1) have rest: "fillInDeviceInfo_loop crypto uid tlfCryptKey ePrivKey ePubIndex ks uckb serverMap c = ((m, e), uckb', c')"
      by simp
    from Cons.IH [OF rest] show ?thesis .
  next
    case (fail err c1)
    with Cons.prems show ?thesis by auto
  next
    case (ok info1 serverHalf c1)
    with Cons.prems(1) have rest: "fillInDeviceInfo_loop crypto uid tlfCryptKey ePrivKey ePubIndex ks (uckb(KID k \<mapsto> info1))
        (serverMap(KID k \<mapsto> serverHalf)) c1 = ((m, e), uckb', c')"
      by simp
    from Cons.IH [OF rest] show ?thesis .
  qed
qed

lemma loop_append:
  "fillInDeviceInfo_loop crypto uid tlfCryptKey ePrivKey ePubIndex (ks1 @ ks2) uckb serverMap c =
     (case fillInDeviceInfo_loop crypto uid tlfCryptKey ePrivKey ePubIndex ks1 uckb serverMap c of
        ((Some serverMap1, None), uckb1, c1) \<Rightarrow>
          fillInDeviceInfo_loop crypto uid tlfCryptKey ePrivKey ePubIndex ks2 uckb1 serverMap1 c1
      | other \<Rightarrow> other)"
proof (induction ks1 arbitrary: uckb serverMap c)
  case Nil
  then show ?case by simp
next
  case (Cons k ks)
  show ?case
  proof (cases rule: loop_Cons_cases [of uckb k crypto uid tlfCryptKey ePrivKey ePubIndex ks serverMap c])
    case skip
    from skip(1) have "fillInDeviceInfo_loop crypto uid tlfCryptKey ePrivKey ePubIndex (k # ks @ ks2) uckb serverMap c =
       fillInDeviceInfo_loop crypto uid tlfCryptKey ePrivKey ePubIndex (ks @ ks2) uckb serverMap c"
      by (simp add: fillInDeviceInfo_loop_step)
    with skip Cons.IH show ?thesis by simp
  next
    case (fail err c1)
    from fail(1,2) have "fillInDeviceInfo_loop crypto uid tlfCryptKey ePrivKey ePubIndex (k # ks @ ks2) uckb serverMap c =
       ((None, Some err), uckb, c1)"
      by (simp add: fillInDeviceInfo_loop_step)
    with fail show ?thesis by simp
  next
    case (ok info1 serverHalf c1)
    from ok(1,2) have "fillInDeviceInfo_loop crypto uid tlfCryptKey ePrivKey ePubIndex (k # ks @ ks2) uckb serverMap c =
       fillInDeviceInfo_loop crypto uid tlfCryptKey ePrivKey ePubIndex (ks @ ks2)
         (uckb(KID k \<mapsto> info1)) (serverMap(KID k \<mapsto> serverHalf)) c1"
      by (simp add: fillInDeviceInfo_loop_step)
    also note Cons.IH
    finally show ?thesis by (simp only: ok(3) append_Cons)
  qed
qed

lemma loop_success_dom:
  "fillInDeviceInfo_loop crypto uid tlfCryptKey ePrivKey ePubIndex publicKeys uckb serverMap c =
     ((Some serverMap', None), uckb', c') \<Longrightarrow>
   dom uckb' = dom uckb \<union> KID ` set publicKeys \<and>
   dom serverMap' = dom serverMap \<union> (KID ` set publicKeys - dom uckb)"
proof (induction publicKeys arbitrary: uckb serverMap c)
  case Nil
  then show ?case by simp
next
  case (Cons k ks)
  show ?case
  proof (cases rule: loop_Cons_cases [of uckb k crypto uid tlfCryptKey ePrivKey ePubIndex ks serverMap c])
    case skip
    with Cons.prems(1) have rest: "fillInDeviceInfo_loop crypto uid tlfCryptKey ePrivKey ePubIndex ks uckb serverMap c = ((Some serverMap', None), uckb', c')"
      by simp
    from Cons.IH [OF rest] skip(1) show ?thesis by auto
  next
    case (fail err c1)
    with Cons.prems show ?thesis by simp
  next
    case (ok info1 serverHalf c1)
    with Cons.prems(1) have rest: "fillInDeviceInfo_loop crypto uid tlfCryptKey ePrivKey ePubIndex ks (uckb(KID k \<mapsto> info1))
        (serverMap(KID k \<mapsto> serverHalf)) c1 = ((Some serverMap', None), uckb', c')"
      by simp
    have d1: "dom (uckb(KID k \<mapsto> info1)) = insert (KID k) (dom uckb)"
      and d2: "dom (serverMap(KID k \<mapsto> serverHalf)) = insert (KID k) (dom serverMap)"
      by simp_all
    from ok(1) have "KID k \<notin> dom uckb" by auto
    with Cons.IH [OF rest] show ?thesis unfolding d1 d2 by auto
  qed
qed

lemma CryptPublicKey_eta: "\<lparr>KID = KID k\<rparr> = (k :: CryptPublicKey)"
  by (cases k) simp

lemma loop_built_from:
  "fillInDeviceInfo_loop crypto uid tlfCryptKey ePrivKey ePubIndex publicKeys uckb serverMap c =
     ((Some serverMap', None), uckb', c') \<Longrightarrow>
   serverMap d = None \<Longrightarrow> serverMap' d = Some serverHalf \<Longrightarrow>
   uckb d = None \<and>
   (\<exists>info. uckb' d = Some info \<and>
      built_from crypto uid tlfCryptKey ePrivKey ePubIndex d info serverHalf)"
proof (induction publicKeys arbitrary: uckb serverMap c)
  case Nil
  then show ?case by simp
next
  case (Cons k ks)
  show ?case
  proof (cases rule: loop_Cons_cases [of uckb k crypto uid tlfCryptKey ePrivKey ePubIndex ks serverMap c])
    case skip
    with Cons.prems(1) have rest: "fillInDeviceInfo_loop crypto uid tlfCryptKey ePrivKey ePubIndex ks uckb serverMap c = ((Some serverMap', None), uckb', c')"
      by simp
    from Cons.IH [OF rest Cons.prems(2,3)] show ?thesis .
  next
    case (fail err c1)
    with Cons.prems show ?thesis by simp
  next
    case (ok info1 sh1 c1)
    with Cons.prems(1) have rest: "fillInDeviceInfo_loop crypto uid tlfCryptKey ePrivKey ePubIndex ks (uckb(KID k \<mapsto> info1))
        (serverMap(KID k \<mapsto> sh1)) c1 = ((Some serverMap', None), uckb', c')"
      by simp
    show ?thesis
    proof (cases "d = KID k")
      case True
      have present: "(uckb(KID k \<mapsto> info1)) d \<noteq> None" using True by simp
      from loop_skips_in_map [OF rest present] True Cons.prems(3)
      have sh: "sh1 = serverHalf" by simp
      from loop_keeps_record [OF rest, of d info1] True
      have rec: "uckb' d = Some info1" by simp
      from ok(2) have "built_from crypto uid tlfCryptKey ePrivKey ePubIndex (KID k) info1 sh1"
        unfolding built_from_def CryptPublicKey_eta by blast
      with sh rec True ok(1) show ?thesis by auto
    next
      case False
      with Cons.prems(2) have "(serverMap(KID k \<mapsto> sh1)) d = None" by simp
      from Cons.IH [OF rest this Cons.prems(3)] False show ?thesis by (simp split: if_splits)
    qed
  qed
qed

lemma loop_filter:
  "\<forall>k \<in> set publicKeys. \<not> Q k \<longrightarrow> uckb (KID k) \<noteq> None \<Longrightarrow>
   fillInDeviceInfo_loop crypto uid tlfCryptKey ePrivKey ePubIndex publicKeys uckb serverMap c =
   fillInDeviceInfo_loop crypto uid tlfCryptKey ePrivKey ePubIndex (filter Q publicKeys) uckb serverMap c"
proof (induction publicKeys arbitrary: uckb serverMap c)
  case Nil
  then show ?case by simp
next
  case (Cons k ks)
  from Cons.prems have tl: "\<forall>k \<in> set ks. \<not> Q k \<longrightarrow> uckb (KID k) \<noteq> None" by simp
  show ?case
  proof (cases "uckb (KID k) \<noteq> None")
    case True
    then have "fillInDeviceInfo_loop crypto uid tlfCryptKey ePrivKey ePubIndex (k # ks) uckb serverMap c =
        fillInDeviceInfo_loop crypto uid tlfCryptKey ePrivKey ePubIndex ks uckb serverMap c"
      by (simp add: fillInDeviceInfo_loop_step)
    also have "\<dots> = fillInDeviceInfo_loop crypto uid tlfCryptKey ePrivKey ePubIndex (filter Q ks) uckb serverMap c"
      by (rule Cons.IH [OF tl])
    also have "\<dots> = fillInDeviceInfo_loop crypto uid tlfCryptKey ePrivKey ePubIndex (filter Q (k # ks)) uckb serverMap c"
      using True by (simp add: fillInDeviceInfo_loop_step)
    finally show ?thesis .
  next
    case False
    with Cons.prems have q: "Q k" by auto
    have ih: "fillInDeviceInfo_loop crypto uid tlfCryptKey ePrivKey ePubIndex ks (uckb(KID k \<mapsto> i)) sm c1 =
        fillInDeviceInfo_loop crypto uid tlfCryptKey ePrivKey ePubIndex (filter Q ks) (uckb(KID k \<mapsto> i)) sm c1"
      for i sm c1
      by (rule Cons.IH) (use tl in auto)
    from False q show ?thesis
      by (simp add: fillInDeviceInfo_loop_step ih split: prod.splits sum.splits)
  qed
qed

lemma loop_all_present:
  "\<forall>k \<in> set publicKeys. uckb (KID k) \<noteq> None \<Longrightarrow>
   fillInDeviceInfo_loop crypto uid tlfCryptKey ePrivKey ePubIndex publicKeys uckb serverMap c =
     ((Some serverMap, None), uckb, c)"
  using loop_filter [of publicKeys "\<lambda>k. False" uckb crypto uid tlfCryptKey ePrivKey ePubIndex serverMap c]
  by simp

lemma loop_success_present:
  "fillInDeviceInfo_loop crypto uid tlfCryptKey ePrivKey ePubIndex publicKeys uckb serverMap c =
     ((Some serverMap', None), uckb', c') \<Longrightarrow>
   \<forall>k \<in> set publicKeys. uckb' (KID k) \<noteq> None"
  using loop_success_dom [of crypto uid tlfCryptKey ePrivKey ePubIndex publicKeys uckb serverMap c serverMap' uckb' c']
  by auto

lemma loop_new_built:
  "fillInDeviceInfo_loop crypto uid tlfCryptKey ePrivKey ePubIndex publicKeys uckb serverMap c =
     (r, uckb', c') \<Longrightarrow>
   uckb d = None \<Longrightarrow> uckb' d = Some info \<Longrightarrow>
   \<exists>serverHalf. built_from crypto uid tlfCryptKey ePrivKey ePubIndex d info serverHalf"
proof (induction publicKeys arbitrary: uckb serverMap c)
  case Nil
  then show ?case by simp
next
  case (Cons k ks)
  show ?case
  proof (cases rule: loop_Cons_cases [of uckb k crypto uid tlfCryptKey ePrivKey ePubIndex ks serverMap c])
    case skip
    with Cons.prems(1) have rest: "fillInDeviceInfo_loop crypto uid tlfCryptKey ePrivKey ePubIndex ks uckb serverMap c = (r, uckb', c')"
      by simp
    from Cons.IH [OF rest Cons.prems(2,3)] show ?thesis .
  next
    case (fail err c1)
    with Cons.prems show ?thesis by simp
  next
    case (ok info1 sh1 c1)
    with Cons.prems(1) have rest: "fillInDeviceInfo_loop crypto uid tlfCryptKey ePrivKey ePubIndex ks (uckb(KID k \<mapsto> info1))
        (serverMap(KID k \<mapsto> sh1)) c1 = (r, uckb', c')"
      by simp
    show ?thesis
    proof (cases "d = KID k")
      case True
      from loop_keeps_record [OF rest, of d info1] True Cons.prems(3)
      have "info1 = info" by simp
      moreover from ok(2) have "built_from crypto uid tlfCryptKey ePrivKey ePubIndex (KID k) info1 sh1"
        unfolding built_from_def CryptPublicKey_eta by blast
      ultimately show ?thesis using True by blast
    next
      case False
      with Cons.prems(2) have "(uckb(KID k \<mapsto> info1)) d = None" by simp
      from Cons.IH [OF rest this Cons.prems(3)] show ?thesis .
    qed
  qed
qed

lemma loop_fails_at:
  assumes "uckb (KID k) = None"
    and "crypto_step_fails crypto uid tlfCryptKey ePrivKey k c err c'"
  shows "fillInDeviceInfo_loop crypto uid tlfCryptKey ePrivKey ePubIndex (k # ks) uckb serverMap c =
           ((None, Some err), uckb, c')"
  using assms crypto_step_fails_iff [of crypto uid tlfCryptKey ePrivKey k c err c' ePubIndex]
  by (simp add: fillInDeviceInfo_loop_step)

lemma fillInDeviceInfo_fails_after_prefix:
  assumes "fillInDeviceInfo crypto uid tlfCryptKey ePrivKey ePubIndex ks1 uckb c =
             ((Some serverMap1, None), uckb1, c1)"
    and "uckb1 (KID k) = None"
    and "crypto_step_fails crypto uid tlfCryptKey ePrivKey k c1 err c2"
  shows "fillInDeviceInfo crypto uid tlfCryptKey ePrivKey ePubIndex (ks1 @ k # ks2) uckb c =
           ((None, Some err), uckb1, c2)"
  using assms(1) loop_fails_at [of uckb1 k crypto uid tlfCryptKey ePrivKey c1 err c2 ePubIndex ks2 serverMap1]
    assms(2,3)
  by (simp add: fillInDeviceInfo_def loop_append)

lemma loop_failure_decomposes:
  "fillInDeviceInfo_loop crypto uid tlfCryptKey ePrivKey ePubIndex publicKeys uckb serverMap c =
     ((m, Some err), uckb', c') \<Longrightarrow>
   \<exists>ks1 k ks2 serverMap1 c1.
     publicKeys = ks1 @ k # ks2 \<and>
     fillInDeviceInfo_loop crypto uid tlfCryptKey ePrivKey ePubIndex ks1 uckb serverMap c =
       ((Some serverMap1, None), uckb', c1) \<and>
     uckb' (KID k) = None \<and>
     crypto_step_fails crypto uid tlfCryptKey ePrivKey k c1 err c'"
proof (induction publicKeys arbitrary: uckb serverMap c)
  case Nil
  then show ?case by simp
next
  case (Cons k ks)
  show ?case
  proof (cases rule: loop_Cons_cases [of uckb k crypto uid tlfCryptKey ePrivKey ePubIndex ks serverMap c])
    case skip
    with Cons.prems(1) have rest: "fillInDeviceInfo_loop crypto uid tlfCryptKey ePrivKey ePubIndex ks uckb serverMap c = ((m, Some err), uckb', c')"
      by simp
    from Cons.IH [OF rest] obtain ks1 k' ks2 serverMap1 c1 where
      d: "ks = ks1 @ k' # ks2"
      "fillInDeviceInfo_loop crypto uid tlfCryptKey ePrivKey ePubIndex ks1 uckb serverMap c =
       ((Some serverMap1, None), uckb', c1)"
      "uckb' (KID k') = None"
      "crypto_step_fails crypto uid tlfCryptKey ePrivKey k' c1 err c'"
      by blast
    from skip(1) d(2)
    have "fillInDeviceInfo_loop crypto uid tlfCryptKey ePrivKey ePubIndex (k # ks1) uckb serverMap c =
       ((Some serverMap1, None), uckb', c1)"
      by (simp add: fillInDeviceInfo_loop_step)
    with d show ?thesis
      by (intro exI [of _ "k # ks1"] exI [of _ k'] exI [of _ ks2] exI [of _ serverMap1] exI [of _ c1]) simp
  next
    case (fail e1 c1)
    with Cons.prems have eq: "e1 = err" "uckb' = uckb" "c1 = c'" by simp_all
    from fail(2) eq have "crypto_step_fails crypto uid tlfCryptKey ePrivKey k c err c'"
      using crypto_step_fails_iff [of crypto uid tlfCryptKey ePrivKey k c err c' ePubIndex] by simp
    with fail(1) eq show ?thesis
      by (intro exI [of _ "[]"] exI [of _ k] exI [of _ ks] exI [of _ serverMap] exI [of _ c]) simp
  next
    case (ok info1 sh1 c1)
    with Cons.prems(1) have rest: "fillInDeviceInfo_loop crypto uid tlfCryptKey ePrivKey ePubIndex ks (uckb(KID k \<mapsto> info1))
        (serverMap(KID k \<mapsto> sh1)) c1 = ((m, Some err), uckb', c')"
      by simp
    from Cons.IH [OF rest] obtain ks1 k' ks2 serverMap1 c2 where
      d: "ks = ks1 @ k' # ks2"
      "fillInDeviceInfo_loop crypto uid tlfCryptKey ePrivKey ePubIndex ks1 (uckb(KID k \<mapsto> info1))
        (serverMap(KID k \<mapsto> sh1)) c1 = ((Some serverMap1, None), uckb', c2)"
      "uckb' (KID k') = None"
      "crypto_step_fails crypto uid tlfCryptKey ePrivKey k' c2 err c'"
      by blast
    from ok(1,2) d(2)
    have "fillInDeviceInfo_loop crypto uid tlfCryptKey ePrivKey ePubIndex (k # ks1) uckb serverMap c =
       ((Some serverMap1, None), uckb', c2)"
      by (simp add: fillInDeviceInfo_loop_step)
    with d show ?thesis
      by (intro exI [of _ "k # ks1"] exI [of _ k'] exI [of _ ks2] exI [of _ serverMap1] exI [of _ c2]) simp
  qed
qed

subsection \<open>The loop of fillInDevicesAndServerMap\<close>

lemma device_record_user_bundle: "device_record tkm u d = user_bundle tkm u d"
  by (simp add: device_record_def user_bundle_def split: option.splits)

lemma user_bundle_upd: "user_bundle (tkm(u \<mapsto> b)) u' = (if u' = u then b else user_bundle tkm u')"
  by (simp add: user_bundle_def)

lemma device_record_upd_same: "device_record (tkm(u \<mapsto> b)) u d = b d"
  by (simp add: device_record_def)

lemma device_record_upd_other: "u' \<noteq> u \<Longrightarrow> device_record (tkm(u \<mapsto> b)) u' d = device_record tkm u' d"
  by (simp add: device_record_def)

lemma fdi_keeps:
  "fillInDeviceInfo crypto uid tlfCryptKey ePrivKey ePubIndex publicKeys uckb c = (r, uckb', c') \<Longrightarrow>
   uckb d = Some info \<Longrightarrow> uckb' d = Some info"
  unfolding fillInDeviceInfo_def by (rule loop_keeps_record)

lemma fdi_new_index:
  "fillInDeviceInfo crypto uid tlfCryptKey ePrivKey ePubIndex publicKeys uckb c = (r, uckb', c') \<Longrightarrow>
   uckb d = None \<Longrightarrow> uckb' d = Some info \<Longrightarrow> EPubKeyIndex info = ePubIndex"
  unfolding fillInDeviceInfo_def by (rule loop_new_index)

lemma fdi_new_built:
  "fillInDeviceInfo crypto uid tlfCryptKey ePrivKey ePubIndex publicKeys uckb c = (r, uckb', c') \<Longrightarrow>
   uckb d = None \<Longrightarrow> uckb' d = Some info \<Longrightarrow>
   \<exists>serverHalf. built_from crypto uid tlfCryptKey ePrivKey ePubIndex d info serverHalf"
  unfolding fillInDeviceInfo_def by (rule loop_new_built)

lemma fdi_shape:
  "fillInDeviceInfo crypto uid tlfCryptKey ePrivKey ePubIndex publicKeys uckb c = ((m, e), uckb', c') \<Longrightarrow>
   (m = None \<longleftrightarrow> e \<noteq> None)"
  unfolding fillInDeviceInfo_def by (rule loop_result_shape)

lemma fdi_success_dom:
  assumes "fillInDeviceInfo crypto uid tlfCryptKey ePrivKey ePubIndex publicKeys uckb c =
     ((Some m, None), uckb', c')"
  shows "dom uckb' = dom uckb \<union> KID ` set publicKeys \<and> dom m = KID ` set publicKeys - dom uckb"
proof -
  from assms have "fillInDeviceInfo_loop crypto uid tlfCryptKey ePrivKey ePubIndex publicKeys uckb
      Map.empty c = ((Some m, None), uckb', c')"
    by (simp only: fillInDeviceInfo_def)
  from loop_success_dom [OF this] show ?thesis by simp
qed

lemma fdi_built:
  assumes "fillInDeviceInfo crypto uid tlfCryptKey ePrivKey ePubIndex publicKeys uckb c =
     ((Some m, None), uckb', c')"
    and "m d = Some serverHalf"
  shows "uckb d = None \<and>
   (\<exists>info. uckb' d = Some info \<and>
      built_from crypto uid tlfCryptKey ePrivKey ePubIndex d info serverHalf)"
proof -
  from assms(1) have l: "fillInDeviceInfo_loop crypto uid tlfCryptKey ePrivKey ePubIndex publicKeys uckb
      Map.empty c = ((Some m, None), uckb', c')"
    by (simp only: fillInDeviceInfo_def)
  have e: "(Map.empty :: serverMap) d = None" by simp
  from loop_built_from [OF l e assms(2)] show ?thesis .
qed

lemma F_Cons_cases [case_names fail ok]:
  obtains
    (fail) err uckb' c1 where
      "fillInDeviceInfo crypto u tlfCryptKey ePrivKey newIndex keys (user_bundle cb u) c =
         ((None, Some err), uckb', c1)"
      "fillInDevicesAndServerMap crypto newIndex ((u, keys) # rest) cb ePubKey ePrivKey tlfCryptKey nsk c =
         (Some err, cb(u \<mapsto> uckb'), nsk, c1)"
  | (ok) m uckb' c1 where
      "fillInDeviceInfo crypto u tlfCryptKey ePrivKey newIndex keys (user_bundle cb u) c =
         ((Some m, None), uckb', c1)"
      "fillInDevicesAndServerMap crypto newIndex ((u, keys) # rest) cb ePubKey ePrivKey tlfCryptKey nsk c =
         fillInDevicesAndServerMap crypto newIndex rest (cb(u \<mapsto> uckb')) ePubKey ePrivKey tlfCryptKey
           (if dom m \<noteq> {} then nsk(u \<mapsto> m) else nsk) c1"
proof (cases "fillInDeviceInfo crypto u tlfCryptKey ePrivKey newIndex keys (user_bundle cb u) c")
  case (fields r uckb' c1)
  obtain m e where r: "r = (m, e)" by (cases r)
  note run = fields [unfolded r]
  show ?thesis
  proof (cases e)
    case None
    with fdi_shape [OF run] obtain m' where m': "m = Some m'" by auto
    have "fillInDevicesAndServerMap crypto newIndex ((u, keys) # rest) cb ePubKey ePrivKey tlfCryptKey nsk c =
         fillInDevicesAndServerMap crypto newIndex rest (cb(u \<mapsto> uckb')) ePubKey ePrivKey tlfCryptKey
           (if dom m' \<noteq> {} then nsk(u \<mapsto> m') else nsk) c1"
      by (simp add: run None m' len_positive_def)
    with run None m' show ?thesis using ok [of m' uckb' c1] by simp
  next
    case (Some err)
    with fdi_shape [OF run] have m: "m = None" by auto
    have "fillInDevicesAndServerMap crypto newIndex ((u, keys) # rest) cb ePubKey ePrivKey tlfCryptKey nsk c =
         (Some err, cb(u \<mapsto> uckb'), nsk, c1)"
      by (simp add: run Some m)
    with run Some m show ?thesis using fail [of err uckb' c1] by simp
  qed
qed

declare fillInDevicesAndServerMap.simps(2) [simp del]

lemma F_keeps:
  "fillInDevicesAndServerMap crypto newIndex cks cb ePubKey ePrivKey tlfCryptKey nsk c = (e, cb', nsk', c') \<Longrightarrow>
   device_record cb u0 d = Some info \<Longrightarrow> device_record cb' u0 d = Some info"
proof (induction cks arbitrary: cb nsk c)
  case Nil
  then show ?case by simp
next
  case (Cons p rest)
  obtain u keys where p: "p = (u, keys)" by (cases p)
  show ?case
  proof (cases rule: F_Cons_cases [of crypto u tlfCryptKey ePrivKey newIndex keys cb c rest ePubKey nsk])
    case (fail e1 uckb1 c1)
    from Cons.prems(1) have "fillInDevicesAndServerMap crypto newIndex ((u, keys) # rest) cb ePubKey ePrivKey tlfCryptKey nsk c = (e, cb', nsk', c')"
      unfolding p .
    then have out: "e = Some e1" "cb' = cb(u \<mapsto> uckb1)" "nsk' = nsk" "c' = c1"
      unfolding fail(2) by simp_all
    show ?thesis
    proof (cases "u0 = u")
      case True
      with Cons.prems(2) have "user_bundle cb u d = Some info"
        by (simp add: device_record_user_bundle)
      from fdi_keeps [OF fail(1) this] True show ?thesis
        unfolding out by (simp only: device_record_upd_same)
    next
      case False
      from Cons.prems(2) show ?thesis
        unfolding out device_record_upd_other [OF False] .
    qed
  next
    case (ok m1 uckb1 c1)
    from Cons.prems(1) have "fillInDevicesAndServerMap crypto newIndex ((u, keys) # rest) cb ePubKey ePrivKey tlfCryptKey nsk c = (e, cb', nsk', c')"
      unfolding p .
    then have rest: "fillInDevicesAndServerMap crypto newIndex rest (cb(u \<mapsto> uckb1)) ePubKey ePrivKey tlfCryptKey
        (if dom m1 \<noteq> {} then nsk(u \<mapsto> m1) else nsk) c1 = (e, cb', nsk', c')"
      unfolding ok(2) .
    have "device_record (cb(u \<mapsto> uckb1)) u0 d = Some info"
    proof (cases "u0 = u")
      case True
      with Cons.prems(2) have "user_bundle cb u d = Some info"
        by (simp add: device_record_user_bundle)
      from fdi_keeps [OF ok(1) this] True show ?thesis
        by (simp only: device_record_upd_same)
    next
      case False
      from Cons.prems(2) show ?thesis
        unfolding device_record_upd_other [OF False] .
    qed
    from Cons.IH [OF rest this] show ?thesis .
  qed
qed

lemma F_new_index:
  "fillInDevicesAndServerMap crypto newIndex cks cb ePubKey ePrivKey tlfCryptKey nsk c = (e, cb', nsk', c') \<Longrightarrow>
   device_record cb u0 d = None \<Longrightarrow> device_record cb' u0 d = Some info \<Longrightarrow>
   EPubKeyIndex info = newIndex"
proof (induction cks arbitrary: cb nsk c)
  case Nil
  then show ?case by simp
next
  case (Cons p rest)
  obtain u keys where p: "p = (u, keys)" by (cases p)
  show ?case
  proof (cases rule: F_Cons_cases [of crypto u tlfCryptKey ePrivKey newIndex keys cb c rest ePubKey nsk])
    case (fail e1 uckb1 c1)
    from Cons.prems(1) have "fillInDevicesAndServerMap crypto newIndex ((u, keys) # rest) cb ePubKey ePrivKey tlfCryptKey nsk c = (e, cb', nsk', c')"
      unfolding p .
    then have out: "e = Some e1" "cb' = cb(u \<mapsto> uckb1)" "nsk' = nsk" "c' = c1"
      unfolding fail(2) by simp_all
    show ?thesis
    proof (cases "u0 = u")
      case True
      from Cons.prems(3) have "uckb1 d = Some info"
        unfolding out True by (simp only: device_record_upd_same)
      moreover from Cons.prems(2) True have "user_bundle cb u d = None"
        by (simp add: device_record_user_bundle)
      ultimately show ?thesis using fdi_new_index [OF fail(1)] True by blast
    next
      case False
      from Cons.prems(3) have "device_record cb u0 d = Some info"
        unfolding out by (simp only: device_record_upd_other [OF False])
      with Cons.prems(2) show ?thesis by simp
    qed
  next
    case (ok m1 uckb1 c1)
    from Cons.prems(1) have "fillInDevicesAndServerMap crypto newIndex ((u, keys) # rest) cb ePubKey ePrivKey tlfCryptKey nsk c = (e, cb', nsk', c')"
      unfolding p .
    then have rest: "fillInDevicesAndServerMap crypto newIndex rest (cb(u \<mapsto> uckb1)) ePubKey ePrivKey tlfCryptKey
        (if dom m1 \<noteq> {} then nsk(u \<mapsto> m1) else nsk) c1 = (e, cb', nsk', c')"
      unfolding ok(2) .
    show ?thesis
    proof (cases "device_record (cb(u \<mapsto> uckb1)) u0 d")
      case None
      from Cons.IH [OF rest None Cons.prems(3)] show ?thesis .
    next
      case (Some info1)
      from F_keeps [OF rest Some] Cons.prems(3) have same: "info1 = info" by simp
      have u0: "u0 = u"
      proof (rule ccontr)
        assume "u0 \<noteq> u"
        from Some Cons.prems(2) show False
          by (simp only: device_record_upd_other [OF \<open>u0 \<noteq> u\<close>]) simp
      qed
      from Some have "uckb1 d = Some info1"
        unfolding u0 by (simp only: device_record_upd_same)
      moreover from Cons.prems(2) u0 have "user_bundle cb u d = None"
        by (simp add: device_record_user_bundle)
      ultimately show ?thesis using fdi_new_index [OF ok(1)] same u0 by blast
    qed
  qed
qed

lemma F_new_built:
  "fillInDevicesAndServerMap crypto newIndex cks cb ePubKey ePrivKey tlfCryptKey nsk c = (e, cb', nsk', c') \<Longrightarrow>
   device_record cb u0 d = None \<Longrightarrow> device_record cb' u0 d = Some info \<Longrightarrow>
   \<exists>serverHalf. built_from crypto u0 tlfCryptKey ePrivKey newIndex d info serverHalf"
proof (induction cks arbitrary: cb nsk c)
  case Nil
  then show ?case by simp
next
  case (Cons p rest)
  obtain u keys where p: "p = (u, keys)" by (cases p)
  show ?case
  proof (cases rule: F_Cons_cases [of crypto u tlfCryptKey ePrivKey newIndex keys cb c rest ePubKey nsk])
    case (fail e1 uckb1 c1)
    from Cons.prems(1) have "fillInDevicesAndServerMap crypto newIndex ((u, keys) # rest) cb ePubKey ePrivKey tlfCryptKey nsk c = (e, cb', nsk', c')"
      unfolding p .
    then have out: "e = Some e1" "cb' = cb(u \<mapsto> uckb1)" "nsk' = nsk" "c' = c1"
      unfolding fail(2) by simp_all
    show ?thesis
    proof (cases "u0 = u")
      case True
      from Cons.prems(3) have "uckb1 d = Some info"
        unfolding out True by (simp only: device_record_upd_same)
      moreover from Cons.prems(2) True have "user_bundle cb u d = None"
        by (simp add: device_record_user_bundle)
      ultimately show ?thesis using fdi_new_built [OF fail(1)] True by blast
    next
      case False
      from Cons.prems(3) have "device_record cb u0 d = Some info"
        unfolding out by (simp only: device_record_upd_other [OF False])
      with Cons.prems(2) show ?thesis by simp
    qed
  next
    case (ok m1 uckb1 c1)
    from Cons.prems(1) have "fillInDevicesAndServerMap crypto newIndex ((u, keys) # rest) cb ePubKey ePrivKey tlfCryptKey nsk c = (e, cb', nsk', c')"
      unfolding p .
    then have rest: "fillInDevicesAndServerMap crypto newIndex rest (cb(u \<mapsto> uckb1)) ePubKey ePrivKey tlfCryptKey
        (if dom m1 \<noteq> {} then nsk(u \<mapsto> m1) else nsk) c1 = (e, cb', nsk', c')"
      unfolding ok(2) .
    show ?thesis
    proof (cases "device_record (cb(u \<mapsto> uckb1)) u0 d")
      case None
      from Cons.IH [OF rest None Cons.prems(3)] show ?thesis .
    next
      case (Some info1)
      from F_keeps [OF rest Some] Cons.prems(3) have same: "info1 = info" by simp
      have u0: "u0 = u"
      proof (rule ccontr)
        assume "u0 \<noteq> u"
        from Some Cons.prems(2) show False
          by (simp only: device_record_upd_other [OF \<open>u0 \<noteq> u\<close>]) simp
      qed
      from Some have "uckb1 d = Some info1"
        unfolding u0 by (simp only: device_record_upd_same)
      moreover from Cons.prems(2) u0 have "user_bundle cb u d = None"
        by (simp add: device_record_user_bundle)
      ultimately show ?thesis using fdi_new_built [OF ok(1)] same u0 by blast
    qed
  qed
qed

lemma F_untouched:
  "fillInDevicesAndServerMap crypto newIndex cks cb ePubKey ePrivKey tlfCryptKey nsk c = (e, cb', nsk', c') \<Longrightarrow>
   u0 \<notin> fst ` set cks \<Longrightarrow> cb' u0 = cb u0 \<and> nsk' u0 = nsk u0"
proof (induction cks arbitrary: cb nsk c)
  case Nil
  then show ?case by simp
next
  case (Cons p rest)
  obtain u keys where p: "p = (u, keys)" by (cases p)
  show ?case
  proof (cases rule: F_Cons_cases [of crypto u tlfCryptKey ePrivKey newIndex keys cb c rest ePubKey nsk])
    case (fail e1 uckb1 c1)
    from Cons.prems(1) have "fillInDevicesAndServerMap crypto newIndex ((u, keys) # rest) cb ePubKey ePrivKey tlfCryptKey nsk c = (e, cb', nsk', c')"
      unfolding p .
    then have out: "e = Some e1" "cb' = cb(u \<mapsto> uckb1)" "nsk' = nsk" "c' = c1"
      unfolding fail(2) by simp_all
    from Cons.prems(2) p have ne: "u0 \<noteq> u" by auto
    then show ?thesis unfolding out by simp
  next
    case (ok m1 uckb1 c1)
    from Cons.prems(1) have "fillInDevicesAndServerMap crypto newIndex ((u, keys) # rest) cb ePubKey ePrivKey tlfCryptKey nsk c = (e, cb', nsk', c')"
      unfolding p .
    then have rest: "fillInDevicesAndServerMap crypto newIndex rest (cb(u \<mapsto> uckb1)) ePubKey ePrivKey tlfCryptKey
        (if dom m1 \<noteq> {} then nsk(u \<mapsto> m1) else nsk) c1 = (e, cb', nsk', c')"
      unfolding ok(2) .
    from Cons.prems(2) p have ne: "u0 \<noteq> u" and "u0 \<notin> fst ` set rest" by auto
    from Cons.IH [OF rest this(2)] ne show ?thesis by simp
  qed
qed

subsection \<open>The two passes of fillInDevices\<close>

lemma device_record_Some_iff:
  "device_record tkm u d = Some info \<longleftrightarrow> (\<exists>b. tkm u = Some b \<and> b d = Some info)"
  by (simp add: device_record_def split: option.splits)

lemma indices_valid_iff:
  "indices_valid tkb \<longleftrightarrow>
     (\<forall>u d info. device_record (WKeys (TLFWriterKeyBundle tkb)) u d = Some info \<longrightarrow>
        index_in_range tkb info) \<and>
     (\<forall>u d info. device_record (RKeys (TLFReaderKeyBundle tkb)) u d = Some info \<longrightarrow>
        index_in_range tkb info)"
  unfolding indices_valid_def device_record_Some_iff by blast

lemma fillInDevices_cases [case_names writer_fails reader_fails ok]:
  obtains
    (writer_fails) err wk nsk c1 where
      "fillInDevicesAndServerMap crypto
         (int (length (TLFEphemeralPublicKeys (TLFWriterKeyBundle tkb)))) wKeys (WKeys (TLFWriterKeyBundle tkb)) ePubKey ePrivKey
         tlfCryptKey Map.empty c = (Some err, wk, nsk, c1)"
      "fillInDevices crypto wKeys rKeys ePubKey ePrivKey tlfCryptKey tkb c =
         ((None, Some err),
          \<lparr>TLFWriterKeyBundle =
             \<lparr>WKeys = wk, TLFPublicKey = TLFPublicKey (TLFWriterKeyBundle tkb),
              TLFEphemeralPublicKeys = TLFEphemeralPublicKeys (TLFWriterKeyBundle tkb) @ [ePubKey]\<rparr>,
           TLFReaderKeyBundle = TLFReaderKeyBundle tkb\<rparr>, c1)"
  | (reader_fails) wk nsk c1 err rk nsk2 c2 where
      "fillInDevicesAndServerMap crypto
         (int (length (TLFEphemeralPublicKeys (TLFWriterKeyBundle tkb)))) wKeys (WKeys (TLFWriterKeyBundle tkb)) ePubKey ePrivKey
         tlfCryptKey Map.empty c = (None, wk, nsk, c1)"
      "fillInDevicesAndServerMap crypto
         (int (length (TLFEphemeralPublicKeys (TLFWriterKeyBundle tkb)))) rKeys (RKeys (TLFReaderKeyBundle tkb)) ePubKey ePrivKey
         tlfCryptKey nsk c1 = (Some err, rk, nsk2, c2)"
      "fillInDevices crypto wKeys rKeys ePubKey ePrivKey tlfCryptKey tkb c =
         ((None, Some err),
          \<lparr>TLFWriterKeyBundle =
             \<lparr>WKeys = wk, TLFPublicKey = TLFPublicKey (TLFWriterKeyBundle tkb),
              TLFEphemeralPublicKeys = TLFEphemeralPublicKeys (TLFWriterKeyBundle tkb) @ [ePubKey]\<rparr>,
           TLFReaderKeyBundle = \<lparr>RKeys = rk\<rparr>\<rparr>, c2)"
  | (ok) wk nsk c1 rk nsk2 c2 where
      "fillInDevicesAndServerMap crypto
         (int (length (TLFEphemeralPublicKeys (TLFWriterKeyBundle tkb)))) wKeys (WKeys (TLFWriterKeyBundle tkb)) ePubKey ePrivKey
         tlfCryptKey Map.empty c = (None, wk, nsk, c1)"
      "fillInDevicesAndServerMap crypto
         (int (length (TLFEphemeralPublicKeys (TLFWriterKeyBundle tkb)))) rKeys (RKeys (TLFReaderKeyBundle tkb)) ePubKey ePrivKey
         tlfCryptKey nsk c1 = (None, rk, nsk2, c2)"
      "fillInDevices crypto wKeys rKeys ePubKey ePrivKey tlfCryptKey tkb c =
         ((Some nsk2, None),
          \<lparr>TLFWriterKeyBundle =
             \<lparr>WKeys = wk, TLFPublicKey = TLFPublicKey (TLFWriterKeyBundle tkb),
              TLFEphemeralPublicKeys = TLFEphemeralPublicKeys (TLFWriterKeyBundle tkb) @ [ePubKey]\<rparr>,
           TLFReaderKeyBundle = \<lparr>RKeys = rk\<rparr>\<rparr>, c2)"
proof (cases "fillInDevicesAndServerMap crypto
         (int (length (TLFEphemeralPublicKeys (TLFWriterKeyBundle tkb)))) wKeys (WKeys (TLFWriterKeyBundle tkb)) ePubKey
    ePrivKey tlfCryptKey Map.empty c")
  case w: (fields e1 wk nsk c1)
  show ?thesis
  proof (cases e1)
    case (Some err)
    have "fillInDevices crypto wKeys rKeys ePubKey ePrivKey tlfCryptKey tkb c =
         ((None, Some err),
          \<lparr>TLFWriterKeyBundle =
             \<lparr>WKeys = wk, TLFPublicKey = TLFPublicKey (TLFWriterKeyBundle tkb),
              TLFEphemeralPublicKeys = TLFEphemeralPublicKeys (TLFWriterKeyBundle tkb) @ [ePubKey]\<rparr>,
           TLFReaderKeyBundle = TLFReaderKeyBundle tkb\<rparr>, c1)"
      using w Some unfolding fillInDevices_def by (simp add: Let_def)
    with w Some show ?thesis using writer_fails by simp
  next
    case None
    show ?thesis
    proof (cases "fillInDevicesAndServerMap crypto
         (int (length (TLFEphemeralPublicKeys (TLFWriterKeyBundle tkb)))) rKeys (RKeys (TLFReaderKeyBundle tkb)) ePubKey
        ePrivKey tlfCryptKey nsk c1")
      case r: (fields e2 rk nsk2 c2)
      show ?thesis
      proof (cases e2)
        case (Some err)
        have "fillInDevices crypto wKeys rKeys ePubKey ePrivKey tlfCryptKey tkb c =
         ((None, Some err),
          \<lparr>TLFWriterKeyBundle =
             \<lparr>WKeys = wk, TLFPublicKey = TLFPublicKey (TLFWriterKeyBundle tkb),
              TLFEphemeralPublicKeys = TLFEphemeralPublicKeys (TLFWriterKeyBundle tkb) @ [ePubKey]\<rparr>,
           TLFReaderKeyBundle = \<lparr>RKeys = rk\<rparr>\<rparr>, c2)"
          using w r None Some unfolding fillInDevices_def by (simp add: Let_def)
        with w r None Some show ?thesis using reader_fails by simp
      next
        case e2: None
        have "fillInDevices crypto wKeys rKeys ePubKey ePrivKey tlfCryptKey tkb c =
         ((Some nsk2, None),
          \<lparr>TLFWriterKeyBundle =
             \<lparr>WKeys = wk, TLFPublicKey = TLFPublicKey (TLFWriterKeyBundle tkb),
              TLFEphemeralPublicKeys = TLFEphemeralPublicKeys (TLFWriterKeyBundle tkb) @ [ePubKey]\<rparr>,
           TLFReaderKeyBundle = \<lparr>RKeys = rk\<rparr>\<rparr>, c2)"
          using w r None e2 unfolding fillInDevices_def by (simp add: Let_def)
        with w r None e2 show ?thesis using ok by simp
      qed
    qed
  qed
qed

lemma fillInDevices_ephemeral:
  assumes "fillInDevices crypto wKeys rKeys ePubKey ePrivKey tlfCryptKey tkb c = (r, tkb', c')"
  shows "TLFEphemeralPublicKeys (TLFWriterKeyBundle tkb') =
           TLFEphemeralPublicKeys (TLFWriterKeyBundle tkb) @ [ePubKey] \<and>
         TLFPublicKey (TLFWriterKeyBundle tkb') = TLFPublicKey (TLFWriterKeyBundle tkb)"
proof (cases rule: fillInDevices_cases [of crypto tkb wKeys ePubKey ePrivKey tlfCryptKey c rKeys])
  case (writer_fails err wk nsk c1)
  from assms show ?thesis unfolding writer_fails(2) by auto
next
  case (reader_fails wk nsk c1 err rk nsk2 c2)
  from assms show ?thesis unfolding reader_fails(3) by auto
next
  case (ok wk nsk c1 rk nsk2 c2)
  from assms show ?thesis unfolding ok(3) by auto
qed

lemma fillInDevices_keeps_writer:
  assumes "fillInDevices crypto wKeys rKeys ePubKey ePrivKey tlfCryptKey tkb c = (r, tkb', c')"
    and "device_record (WKeys (TLFWriterKeyBundle tkb)) u d = Some info"
  shows "device_record (WKeys (TLFWriterKeyBundle tkb')) u d = Some info"
proof (cases rule: fillInDevices_cases [of crypto tkb wKeys ePubKey ePrivKey tlfCryptKey c rKeys])
  case (writer_fails err wk nsk c1)
  from assms(1) have tkb': "WKeys (TLFWriterKeyBundle tkb') = wk"
    unfolding writer_fails(2) by auto
  from F_keeps [OF writer_fails(1)] assms(2-) show ?thesis unfolding tkb' by blast
next
  case (reader_fails wk nsk c1 err rk nsk2 c2)
  from assms(1) have tkb': "WKeys (TLFWriterKeyBundle tkb') = wk"
    unfolding reader_fails(3) by auto
  from F_keeps [OF reader_fails(1)] assms(2-) show ?thesis unfolding tkb' by blast
next
  case (ok wk nsk c1 rk nsk2 c2)
  from assms(1) have tkb': "WKeys (TLFWriterKeyBundle tkb') = wk"
    unfolding ok(3) by auto
  from F_keeps [OF ok(1)] assms(2-) show ?thesis unfolding tkb' by blast
qed

lemma fillInDevices_keeps_reader:
  assumes "fillInDevices crypto wKeys rKeys ePubKey ePrivKey tlfCryptKey tkb c = (r, tkb', c')"
    and "device_record (RKeys (TLFReaderKeyBundle tkb)) u d = Some info"
  shows "device_record (RKeys (TLFReaderKeyBundle tkb')) u d = Some info"
proof (cases rule: fillInDevices_cases [of crypto tkb wKeys ePubKey ePrivKey tlfCryptKey c rKeys])
  case (writer_fails err wk nsk c1)
  from assms(1) have tkb': "RKeys (TLFReaderKeyBundle tkb') = RKeys (TLFReaderKeyBundle tkb)"
    unfolding writer_fails(2) by auto
  from assms(2-) show ?thesis unfolding tkb' by simp
next
  case (reader_fails wk nsk c1 err rk nsk2 c2)
  from assms(1) have tkb': "RKeys (TLFReaderKeyBundle tkb') = rk"
    unfolding reader_fails(3) by auto
  from F_keeps [OF reader_fails(2)] assms(2-) show ?thesis unfolding tkb' by blast
next
  case (ok wk nsk c1 rk nsk2 c2)
  from assms(1) have tkb': "RKeys (TLFReaderKeyBundle tkb') = rk"
    unfolding ok(3) by auto
  from F_keeps [OF ok(2)] assms(2-) show ?thesis unfolding tkb' by blast
qed

lemma fillInDevices_new_writer:
  assumes "fillInDevices crypto wKeys rKeys ePubKey ePrivKey tlfCryptKey tkb c = (r, tkb', c')"
    and "device_record (WKeys (TLFWriterKeyBundle tkb)) u d = None"
    and "device_record (WKeys (TLFWriterKeyBundle tkb')) u d = Some info"
  shows "EPubKeyIndex info = int (length (TLFEphemeralPublicKeys (TLFWriterKeyBundle tkb)))"
proof (cases rule: fillInDevices_cases [of crypto tkb wKeys ePubKey ePrivKey tlfCryptKey c rKeys])
  case (writer_fails err wk nsk c1)
  from assms(1) have tkb': "WKeys (TLFWriterKeyBundle tkb') = wk"
    unfolding writer_fails(2) by auto
  from F_new_index [OF writer_fails(1)] assms(2-) show ?thesis unfolding tkb' by blast
next
  case (reader_fails wk nsk c1 err rk nsk2 c2)
  from assms(1) have tkb': "WKeys (TLFWriterKeyBundle tkb') = wk"
    unfolding reader_fails(3) by auto
  from F_new_index [OF reader_fails(1)] assms(2-) show ?thesis unfolding tkb' by blast
next
  case (ok wk nsk c1 rk nsk2 c2)
  from assms(1) have tkb': "WKeys (TLFWriterKeyBundle tkb') = wk"
    unfolding ok(3) by auto
  from F_new_index [OF ok(1)] assms(2-) show ?thesis unfolding tkb' by blast
qed

lemma fillInDevices_new_reader:
  assumes "fillInDevices crypto wKeys rKeys ePubKey ePrivKey tlfCryptKey tkb c = (r, tkb', c')"
    and "device_record (RKeys (TLFReaderKeyBundle tkb)) u d = None"
    and "device_record (RKeys (TLFReaderKeyBundle tkb')) u d = Some info"
  shows "EPubKeyIndex info = int (length (TLFEphemeralPublicKeys (TLFWriterKeyBundle tkb)))"
proof (cases rule: fillInDevices_cases [of crypto tkb wKeys ePubKey ePrivKey tlfCryptKey c rKeys])
  case (writer_fails err wk nsk c1)
  from assms(1) have tkb': "RKeys (TLFReaderKeyBundle tkb') = RKeys (TLFReaderKeyBundle tkb)"
    unfolding writer_fails(2) by auto
  from assms(2-) show ?thesis unfolding tkb' by simp
next
  case (reader_fails wk nsk c1 err rk nsk2 c2)
  from assms(1) have tkb': "RKeys (TLFReaderKeyBundle tkb') = rk"
    unfolding reader_fails(3) by auto
  from F_new_index [OF reader_fails(2)] assms(2-) show ?thesis unfolding tkb' by blast
next
  case (ok wk nsk c1 rk nsk2 c2)
  from assms(1) have tkb': "RKeys (TLFReaderKeyBundle tkb') = rk"
    unfolding ok(3) by auto
  from F_new_index [OF ok(2)] assms(2-) show ?thesis unfolding tkb' by blast
qed

subsection \<open>Provisioning one user's devices\<close>

text \<open>
  C7. Provisioning is idempotent per device. A call of \<^verbatim>\<open>fillInDeviceInfo\<close> is the call on
  the list without the devices that already have a record: they are skipped. The record
  of every such device is the same after the call, whether the call succeeds or fails,
  and a returned map has no entry for it. After a successful call, a second call with the
  same device list, whatever the capability, keys, index and state it is given, returns
  the empty map and no error, leaves the bundle as it is and does not use the capability.
\<close>

theorem fillInDeviceInfo_skips_existing:
  assumes "fillInDeviceInfo crypto uid tlfCryptKey ePrivKey ePubIndex publicKeys uckb c =
             ((serverMap, err), uckb', c')"
  shows "fillInDeviceInfo crypto uid tlfCryptKey ePrivKey ePubIndex publicKeys uckb c =
           fillInDeviceInfo crypto uid tlfCryptKey ePrivKey ePubIndex
             (filter (\<lambda>k. uckb (KID k) = None) publicKeys) uckb c \<and>
         (\<forall>d info. uckb d = Some info \<longrightarrow>
            uckb' d = Some info \<and> (\<forall>m. serverMap = Some m \<longrightarrow> m d = None)) \<and>
         (err = None \<longrightarrow>
            (\<forall>crypto2 uid2 tlfCryptKey2 ePrivKey2 ePubIndex2 c2.
               fillInDeviceInfo crypto2 uid2 tlfCryptKey2 ePrivKey2 ePubIndex2 publicKeys uckb' c2 =
                 ((Some Map.empty, None), uckb', (c2 :: 'c))))"
proof (intro conjI allI impI)
  show "fillInDeviceInfo crypto uid tlfCryptKey ePrivKey ePubIndex publicKeys uckb c =
           fillInDeviceInfo crypto uid tlfCryptKey ePrivKey ePubIndex
             (filter (\<lambda>k. uckb (KID k) = None) publicKeys) uckb c"
    unfolding fillInDeviceInfo_def by (rule loop_filter) simp
next
  fix d info
  assume "uckb d = Some info"
  with assms show "uckb' d = Some info"
    unfolding fillInDeviceInfo_def by (rule loop_keeps_record)
next
  fix d info m
  assume d: "uckb d = Some info" and m: "serverMap = Some m"
  from assms m have "fillInDeviceInfo_loop crypto uid tlfCryptKey ePrivKey ePubIndex publicKeys uckb
      Map.empty c = ((Some m, err), uckb', c')"
    by (simp add: fillInDeviceInfo_def)
  from loop_skips_in_map [OF this, of d] d show "m d = None" by simp
next
  fix crypto2 :: "'c Crypto" and uid2 tlfCryptKey2 ePrivKey2 ePubIndex2 and c2 :: 'c
  assume "err = None"
  with assms loop_result_shape [of crypto uid tlfCryptKey ePrivKey ePubIndex publicKeys uckb Map.empty c serverMap err uckb' c']
  obtain m where "fillInDeviceInfo_loop crypto uid tlfCryptKey ePrivKey ePubIndex publicKeys uckb
      Map.empty c = ((Some m, None), uckb', c')"
    by (auto simp add: fillInDeviceInfo_def)
  from loop_success_present [OF this]
  show "fillInDeviceInfo crypto2 uid2 tlfCryptKey2 ePrivKey2 ePubIndex2 publicKeys uckb' c2 =
                 ((Some Map.empty, None), uckb', c2)"
    unfolding fillInDeviceInfo_def by (rule loop_all_present)
qed

lemma alice_run:
  "fillInDeviceInfo test_crypto ''alice'' [0x0F] [0xA0] 1 alice_devices alice_before [[0x05]] =
     ((Some [''phone'' \<mapsto> [0x05]], None), alice_after, [])"
  by (simp add: fillInDeviceInfo_def fillInDeviceInfo_loop.simps(2) test_crypto_def
      alice_devices_def alice_before_def alice_after_def new_phone_info_def)

theorem fillInDeviceInfo_skips_existing_witness:
  "fillInDeviceInfo test_crypto ''alice'' [0x0F] [0xA0] 1 alice_devices alice_before [[0x05]] =
     ((Some [''phone'' \<mapsto> [0x05]], None), alice_after, []) \<and>
   alice_before ''laptop'' = Some laptop_info \<and>
   alice_after ''laptop'' = Some laptop_info \<and>
   fillInDeviceInfo test_crypto ''alice'' [0x0F] [0xA0] 2 alice_devices alice_after [[0x09]] =
     ((Some Map.empty, None), alice_after, [[0x09]])"
proof -
  note t = fillInDeviceInfo_skips_existing [OF alice_run]
  have before: "alice_before ''laptop'' = Some laptop_info"
    by (simp add: alice_before_def)
  from t before have kept: "alice_after ''laptop'' = Some laptop_info"
    by blast
  note again = t [THEN conjunct2, THEN conjunct2, rule_format, OF refl,
      of test_crypto "''alice''" "[0x0F]" "[0xA0]" 2 "[[0x09]]"]
  show ?thesis
    by (rule conjI [OF alice_run conjI [OF before conjI [OF kept again]]])
qed


lemma failing_run:
  "fillInDeviceInfo test_crypto ''alice'' [0x0F] [0xA0] 0 failing_devices Map.empty
     [[0x05], [0x06], [0x07]] =
   ((None, Some (CryptoError ''bad device key'')), [''laptop'' \<mapsto> first_laptop_info], [[0x07]])"
  by (simp add: fillInDeviceInfo_def fillInDeviceInfo_loop.simps(2) test_crypto_def
      failing_devices_def first_laptop_info_def)


subsection \<open>Provisioning a bundle\<close>

text \<open>
  C1. Provisioning preserves the validity of the ephemeral-key indices. If every stored
  \<^verbatim>\<open>EPubKeyIndex\<close>, writer or reader side, is an index into the writer bundle's
  \<^verbatim>\<open>TLFEphemeralPublicKeys\<close>, then the same holds in the bundle that a call of
  \<^verbatim>\<open>fillInDevices\<close> leaves (after a successful call, and after a failed one as well). The
  call appends the ephemeral public key, and every record it inserts, for a writer or a
  reader device that had none, has \<^verbatim>\<open>EPubKeyIndex\<close> equal to the new length minus one.
\<close>

theorem fillInDevices_keeps_indices_valid:
  assumes valid: "indices_valid tkb"
    and run: "fillInDevices crypto wKeys rKeys ePubKey ePrivKey tlfCryptKey tkb c = (r, tkb', c')"
  shows "indices_valid tkb' \<and>
         TLFEphemeralPublicKeys (TLFWriterKeyBundle tkb') =
           TLFEphemeralPublicKeys (TLFWriterKeyBundle tkb) @ [ePubKey] \<and>
         (\<forall>u d info.
            device_record (WKeys (TLFWriterKeyBundle tkb)) u d = None \<longrightarrow>
            device_record (WKeys (TLFWriterKeyBundle tkb')) u d = Some info \<longrightarrow>
            EPubKeyIndex info = int (length (TLFEphemeralPublicKeys (TLFWriterKeyBundle tkb'))) - 1) \<and>
         (\<forall>u d info.
            device_record (RKeys (TLFReaderKeyBundle tkb)) u d = None \<longrightarrow>
            device_record (RKeys (TLFReaderKeyBundle tkb')) u d = Some info \<longrightarrow>
            EPubKeyIndex info = int (length (TLFEphemeralPublicKeys (TLFWriterKeyBundle tkb'))) - 1)"
proof -
  from fillInDevices_ephemeral [OF run]
  have eks: "TLFEphemeralPublicKeys (TLFWriterKeyBundle tkb') =
      TLFEphemeralPublicKeys (TLFWriterKeyBundle tkb) @ [ePubKey]"
    by simp
  then have len: "int (length (TLFEphemeralPublicKeys (TLFWriterKeyBundle tkb'))) - 1 =
      int (length (TLFEphemeralPublicKeys (TLFWriterKeyBundle tkb)))"
    by simp
  have old: "index_in_range tkb' info" if "index_in_range tkb info" for info
    using that eks by (simp add: index_in_range_def)
  have new: "index_in_range tkb' info"
    if "EPubKeyIndex info = int (length (TLFEphemeralPublicKeys (TLFWriterKeyBundle tkb)))" for info
    using that eks by (simp add: index_in_range_def)
  have w: "index_in_range tkb' info"
    if "device_record (WKeys (TLFWriterKeyBundle tkb')) u d = Some info" for u d info
  proof (cases "device_record (WKeys (TLFWriterKeyBundle tkb)) u d")
    case None
    from fillInDevices_new_writer [OF run None that] show ?thesis by (rule new)
  next
    case (Some info0)
    from fillInDevices_keeps_writer [OF run Some] that have "info0 = info" by simp
    with Some valid show ?thesis unfolding indices_valid_iff by (blast intro: old)
  qed
  have rd: "index_in_range tkb' info"
    if "device_record (RKeys (TLFReaderKeyBundle tkb')) u d = Some info" for u d info
  proof (cases "device_record (RKeys (TLFReaderKeyBundle tkb)) u d")
    case None
    from fillInDevices_new_reader [OF run None that] show ?thesis by (rule new)
  next
    case (Some info0)
    from fillInDevices_keeps_reader [OF run Some] that have "info0 = info" by simp
    with Some valid show ?thesis unfolding indices_valid_iff by (blast intro: old)
  qed
  from w rd have "indices_valid tkb'"
    unfolding indices_valid_iff by blast
  with eks fillInDevices_new_writer [OF run] fillInDevices_new_reader [OF run] show ?thesis
    unfolding len by blast
qed

lemma provisioning_run:
  "fillInDevices test_crypto new_writers new_readers [0xE3] [0xA0] [0x0F] example_bundle
     [[0x05], [0x06]] =
   ((Some [''carol'' \<mapsto> [''desktop'' \<mapsto> [0x05]], ''bob'' \<mapsto> [''watch'' \<mapsto> [0x06]]], None),
    provisioned_bundle, [])"
  by (simp add: fillInDevices_def fillInDevicesAndServerMap.simps(2) fillInDeviceInfo_def
      fillInDeviceInfo_loop.simps(2) test_crypto_def user_bundle_def len_positive_def
      new_writers_def new_readers_def example_bundle_def example_writer_def example_reader_def
      provisioned_bundle_def desktop_info_def watch_info_def)

theorem fillInDevices_keeps_indices_valid_witness:
  "indices_valid example_bundle \<and>
   fillInDevices test_crypto new_writers new_readers [0xE3] [0xA0] [0x0F] example_bundle
     [[0x05], [0x06]] =
   ((Some [''carol'' \<mapsto> [''desktop'' \<mapsto> [0x05]], ''bob'' \<mapsto> [''watch'' \<mapsto> [0x06]]], None),
    provisioned_bundle, []) \<and>
   indices_valid provisioned_bundle \<and>
   device_record (WKeys (TLFWriterKeyBundle provisioned_bundle)) ''carol'' ''desktop'' =
     Some desktop_info \<and>
   EPubKeyIndex desktop_info = 2 \<and>
   device_record (RKeys (TLFReaderKeyBundle provisioned_bundle)) ''bob'' ''watch'' = Some watch_info \<and>
   EPubKeyIndex watch_info = 2"
proof -
  note t = fillInDevices_keeps_indices_valid [OF example_bundle_valid provisioning_run]
  have len: "int (length (TLFEphemeralPublicKeys (TLFWriterKeyBundle provisioned_bundle))) - 1 = 2"
    by (simp add: provisioned_bundle_def)
  have w0: "device_record (WKeys (TLFWriterKeyBundle example_bundle)) ''carol'' ''desktop'' = None"
    by (simp add: device_record_def example_bundle_def example_writer_def)
  have w1: "device_record (WKeys (TLFWriterKeyBundle provisioned_bundle)) ''carol'' ''desktop'' =
      Some desktop_info"
    by (simp add: device_record_def provisioned_bundle_def)
  have r0: "device_record (RKeys (TLFReaderKeyBundle example_bundle)) ''bob'' ''watch'' = None"
    by (simp add: device_record_def example_bundle_def example_reader_def)
  have r1: "device_record (RKeys (TLFReaderKeyBundle provisioned_bundle)) ''bob'' ''watch'' =
      Some watch_info"
    by (simp add: device_record_def provisioned_bundle_def)
  note valid = t [THEN conjunct1]
  note wi = t [THEN conjunct2, THEN conjunct2, THEN conjunct1, rule_format, OF w0 w1, unfolded len]
  note ri = t [THEN conjunct2, THEN conjunct2, THEN conjunct2, rule_format, OF r0 r1, unfolded len]
  show ?thesis
    by (intro conjI example_bundle_valid provisioning_run valid w1 wi r1 ri)
qed

subsection \<open>Failure during provisioning\<close>

lemma F_append:
  "fillInDevicesAndServerMap crypto newIndex (cks @ cks2) cb ePubKey ePrivKey tlfCryptKey nsk c =
     (case fillInDevicesAndServerMap crypto newIndex cks cb ePubKey ePrivKey tlfCryptKey nsk c of
        (None, cb1, nsk1, c1) \<Rightarrow>
          fillInDevicesAndServerMap crypto newIndex cks2 cb1 ePubKey ePrivKey tlfCryptKey nsk1 c1
      | other \<Rightarrow> other)"
proof (induction cks arbitrary: cb nsk c)
  case Nil
  then show ?case by simp
next
  case (Cons p rest)
  obtain u keys where p: "p = (u, keys)" by (cases p)
  show ?case
  proof (cases rule: F_Cons_cases [of crypto u tlfCryptKey ePrivKey newIndex keys cb c rest ePubKey nsk])
    case (fail e1 uckb1 c1)
    from fail(1)
    have "fillInDevicesAndServerMap crypto newIndex ((u, keys) # rest @ cks2) cb ePubKey ePrivKey
        tlfCryptKey nsk c = (Some e1, cb(u \<mapsto> uckb1), nsk, c1)"
      by (simp add: fillInDevicesAndServerMap.simps(2))
    then show ?thesis unfolding p append_Cons fail(2) by simp
  next
    case (ok m1 uckb1 c1)
    from ok(1)
    have "fillInDevicesAndServerMap crypto newIndex ((u, keys) # rest @ cks2) cb ePubKey ePrivKey
        tlfCryptKey nsk c =
        fillInDevicesAndServerMap crypto newIndex (rest @ cks2) (cb(u \<mapsto> uckb1)) ePubKey ePrivKey
          tlfCryptKey (if dom m1 \<noteq> {} then nsk(u \<mapsto> m1) else nsk) c1"
      by (simp add: fillInDevicesAndServerMap.simps(2) len_positive_def)
    also note Cons.IH
    finally show ?thesis unfolding p append_Cons ok(2) .
  qed
qed

lemma F_fails_after_prefix:
  assumes "fillInDevicesAndServerMap crypto newIndex us1 cb ePubKey ePrivKey tlfCryptKey nsk c =
             (None, cb1, nsk1, c1)"
    and "fillInDeviceInfo crypto u tlfCryptKey ePrivKey newIndex keys (user_bundle cb1 u) c1 =
           ((None, Some err), uckb', c2)"
  shows "fillInDevicesAndServerMap crypto newIndex (us1 @ (u, keys) # us2) cb ePubKey ePrivKey
           tlfCryptKey nsk c = (Some err, cb1(u \<mapsto> uckb'), nsk1, c2)"
proof -
  from assms(2)
  have "fillInDevicesAndServerMap crypto newIndex ((u, keys) # us2) cb1 ePubKey ePrivKey
      tlfCryptKey nsk1 c1 = (Some err, cb1(u \<mapsto> uckb'), nsk1, c2)"
    by (simp add: fillInDevicesAndServerMap.simps(2))
  with assms(1) show ?thesis
    unfolding F_append by simp
qed

lemma fillInDevices_writer_fails:
  assumes "fillInDevicesAndServerMap crypto
             (int (length (TLFEphemeralPublicKeys (TLFWriterKeyBundle tkb)))) wKeys
             (WKeys (TLFWriterKeyBundle tkb)) ePubKey ePrivKey tlfCryptKey Map.empty c =
           (Some err, wk, nsk, c1)"
  shows "fillInDevices crypto wKeys rKeys ePubKey ePrivKey tlfCryptKey tkb c =
         ((None, Some err),
          \<lparr>TLFWriterKeyBundle =
             \<lparr>WKeys = wk, TLFPublicKey = TLFPublicKey (TLFWriterKeyBundle tkb),
              TLFEphemeralPublicKeys = TLFEphemeralPublicKeys (TLFWriterKeyBundle tkb) @ [ePubKey]\<rparr>,
           TLFReaderKeyBundle = TLFReaderKeyBundle tkb\<rparr>, c1)"
  using assms unfolding fillInDevices_def by (simp add: Let_def)

lemma fillInDevices_reader_fails:
  assumes "fillInDevicesAndServerMap crypto
             (int (length (TLFEphemeralPublicKeys (TLFWriterKeyBundle tkb)))) wKeys
             (WKeys (TLFWriterKeyBundle tkb)) ePubKey ePrivKey tlfCryptKey Map.empty c =
           (None, wk, nsk, c1)"
    and "fillInDevicesAndServerMap crypto
             (int (length (TLFEphemeralPublicKeys (TLFWriterKeyBundle tkb)))) rKeys
             (RKeys (TLFReaderKeyBundle tkb)) ePubKey ePrivKey tlfCryptKey nsk c1 =
           (Some err, rk, nsk2, c2)"
  shows "fillInDevices crypto wKeys rKeys ePubKey ePrivKey tlfCryptKey tkb c =
         ((None, Some err),
          \<lparr>TLFWriterKeyBundle =
             \<lparr>WKeys = wk, TLFPublicKey = TLFPublicKey (TLFWriterKeyBundle tkb),
              TLFEphemeralPublicKeys = TLFEphemeralPublicKeys (TLFWriterKeyBundle tkb) @ [ePubKey]\<rparr>,
           TLFReaderKeyBundle = \<lparr>RKeys = rk\<rparr>\<rparr>, c2)"
  using assms unfolding fillInDevices_def by (simp add: Let_def)

lemma fillInDeviceInfo_failure_decomposes:
  assumes "fillInDeviceInfo crypto uid tlfCryptKey ePrivKey ePubIndex publicKeys uckb c =
             ((m, Some err), uckb', c')"
  shows "\<exists>ks1 k ks2 serverMap1 c1.
           publicKeys = ks1 @ k # ks2 \<and>
           fillInDeviceInfo crypto uid tlfCryptKey ePrivKey ePubIndex ks1 uckb c =
             ((Some serverMap1, None), uckb', c1) \<and>
           uckb' (KID k) = None \<and>
           crypto_step_fails crypto uid tlfCryptKey ePrivKey k c1 err c'"
  using assms unfolding fillInDeviceInfo_def by (rule loop_failure_decomposes)

text \<open>
  C4. Provisioning fails fast and rolls nothing back. (1) When the devices \<open>ks1\<close> have
  been processed without error and one of the four crypto steps (random server half,
  masking, encryption, server-half id) fails for the next device \<open>k\<close>, which has no record,
  \<^verbatim>\<open>fillInDeviceInfo\<close> returns exactly that error; the later devices \<open>ks2\<close> are not
  processed (neither the result nor the state of the capability, which is the one left by
  the failing step, depends on them); and the bundle is the one that \<open>ks1\<close> left, with
  the records inserted for the earlier devices. (2) Every failing call is of this kind.
  (3) When \<^verbatim>\<open>fillInDeviceInfo\<close> fails for a user, \<^verbatim>\<open>fillInDevicesAndServerMap\<close> returns that
  error, does not go on to the later users, and leaves the bundles of the earlier users
  and the partly filled bundle of the failing user in place. (4, 5) When the writer pass or
  the reader pass fails, \<^verbatim>\<open>fillInDevices\<close> returns a nil map and the error, and the bundle
  holds the appended ephemeral public key and the per-user maps as the passes left them.
\<close>

theorem provisioning_failure_not_rolled_back:
  "(fillInDeviceInfo crypto uid tlfCryptKey ePrivKey ePubIndex ks1 uckb c =
      ((Some serverMap1, None), uckb1, c1) \<longrightarrow>
    uckb1 (KID k) = None \<longrightarrow>
    crypto_step_fails crypto uid tlfCryptKey ePrivKey k c1 err c2 \<longrightarrow>
    fillInDeviceInfo crypto uid tlfCryptKey ePrivKey ePubIndex (ks1 @ k # ks2) uckb c =
      ((None, Some err), uckb1, c2)) \<and>
   (fillInDeviceInfo crypto uid tlfCryptKey ePrivKey ePubIndex publicKeys uckb c =
      ((m, Some err), uckb', c') \<longrightarrow>
    (\<exists>ks1 k ks2 serverMap1 c1.
       publicKeys = ks1 @ k # ks2 \<and>
       fillInDeviceInfo crypto uid tlfCryptKey ePrivKey ePubIndex ks1 uckb c =
         ((Some serverMap1, None), uckb', c1) \<and>
       uckb' (KID k) = None \<and>
       crypto_step_fails crypto uid tlfCryptKey ePrivKey k c1 err c')) \<and>
   (fillInDevicesAndServerMap crypto ePubIndex us1 cb ePubKey ePrivKey tlfCryptKey nsk c =
      (None, cb1, nsk1, c1) \<longrightarrow>
    fillInDeviceInfo crypto u tlfCryptKey ePrivKey ePubIndex keys (user_bundle cb1 u) c1 =
      ((None, Some err), uckb', c2) \<longrightarrow>
    fillInDevicesAndServerMap crypto ePubIndex (us1 @ (u, keys) # us2) cb ePubKey ePrivKey
      tlfCryptKey nsk c = (Some err, cb1(u \<mapsto> uckb'), nsk1, c2)) \<and>
   (fillInDevicesAndServerMap crypto
      (int (length (TLFEphemeralPublicKeys (TLFWriterKeyBundle tkb)))) wKeys
      (WKeys (TLFWriterKeyBundle tkb)) ePubKey ePrivKey tlfCryptKey Map.empty c =
      (Some err, wk, nsk1, c1) \<longrightarrow>
    fillInDevices crypto wKeys rKeys ePubKey ePrivKey tlfCryptKey tkb c =
      ((None, Some err),
       \<lparr>TLFWriterKeyBundle =
          \<lparr>WKeys = wk, TLFPublicKey = TLFPublicKey (TLFWriterKeyBundle tkb),
           TLFEphemeralPublicKeys = TLFEphemeralPublicKeys (TLFWriterKeyBundle tkb) @ [ePubKey]\<rparr>,
        TLFReaderKeyBundle = TLFReaderKeyBundle tkb\<rparr>, c1)) \<and>
   (fillInDevicesAndServerMap crypto
      (int (length (TLFEphemeralPublicKeys (TLFWriterKeyBundle tkb)))) wKeys
      (WKeys (TLFWriterKeyBundle tkb)) ePubKey ePrivKey tlfCryptKey Map.empty c =
      (None, wk, nsk1, c1) \<longrightarrow>
    fillInDevicesAndServerMap crypto
      (int (length (TLFEphemeralPublicKeys (TLFWriterKeyBundle tkb)))) rKeys
      (RKeys (TLFReaderKeyBundle tkb)) ePubKey ePrivKey tlfCryptKey nsk1 c1 =
      (Some err, rk, nsk2, c2) \<longrightarrow>
    fillInDevices crypto wKeys rKeys ePubKey ePrivKey tlfCryptKey tkb c =
      ((None, Some err),
       \<lparr>TLFWriterKeyBundle =
          \<lparr>WKeys = wk, TLFPublicKey = TLFPublicKey (TLFWriterKeyBundle tkb),
           TLFEphemeralPublicKeys = TLFEphemeralPublicKeys (TLFWriterKeyBundle tkb) @ [ePubKey]\<rparr>,
        TLFReaderKeyBundle = \<lparr>RKeys = rk\<rparr>\<rparr>, c2))"
proof (intro conjI impI)
  assume "fillInDeviceInfo crypto uid tlfCryptKey ePrivKey ePubIndex ks1 uckb c =
      ((Some serverMap1, None), uckb1, c1)"
    and "uckb1 (KID k) = None"
    and "crypto_step_fails crypto uid tlfCryptKey ePrivKey k c1 err c2"
  then show "fillInDeviceInfo crypto uid tlfCryptKey ePrivKey ePubIndex (ks1 @ k # ks2) uckb c =
      ((None, Some err), uckb1, c2)"
    by (rule fillInDeviceInfo_fails_after_prefix)
next
  assume "fillInDeviceInfo crypto uid tlfCryptKey ePrivKey ePubIndex publicKeys uckb c =
      ((m, Some err), uckb', c')"
  then show "\<exists>ks1 k ks2 serverMap1 c1.
       publicKeys = ks1 @ k # ks2 \<and>
       fillInDeviceInfo crypto uid tlfCryptKey ePrivKey ePubIndex ks1 uckb c =
         ((Some serverMap1, None), uckb', c1) \<and>
       uckb' (KID k) = None \<and>
       crypto_step_fails crypto uid tlfCryptKey ePrivKey k c1 err c'"
    by (rule fillInDeviceInfo_failure_decomposes)
next
  assume "fillInDevicesAndServerMap crypto ePubIndex us1 cb ePubKey ePrivKey tlfCryptKey nsk c =
      (None, cb1, nsk1, c1)"
    and "fillInDeviceInfo crypto u tlfCryptKey ePrivKey ePubIndex keys (user_bundle cb1 u) c1 =
      ((None, Some err), uckb', c2)"
  then show "fillInDevicesAndServerMap crypto ePubIndex (us1 @ (u, keys) # us2) cb ePubKey ePrivKey
      tlfCryptKey nsk c = (Some err, cb1(u \<mapsto> uckb'), nsk1, c2)"
    by (rule F_fails_after_prefix)
next
  assume "fillInDevicesAndServerMap crypto
      (int (length (TLFEphemeralPublicKeys (TLFWriterKeyBundle tkb)))) wKeys
      (WKeys (TLFWriterKeyBundle tkb)) ePubKey ePrivKey tlfCryptKey Map.empty c =
      (Some err, wk, nsk1, c1)"
  then show "fillInDevices crypto wKeys rKeys ePubKey ePrivKey tlfCryptKey tkb c =
      ((None, Some err),
       \<lparr>TLFWriterKeyBundle =
          \<lparr>WKeys = wk, TLFPublicKey = TLFPublicKey (TLFWriterKeyBundle tkb),
           TLFEphemeralPublicKeys = TLFEphemeralPublicKeys (TLFWriterKeyBundle tkb) @ [ePubKey]\<rparr>,
        TLFReaderKeyBundle = TLFReaderKeyBundle tkb\<rparr>, c1)"
    by (rule fillInDevices_writer_fails)
next
  assume "fillInDevicesAndServerMap crypto
      (int (length (TLFEphemeralPublicKeys (TLFWriterKeyBundle tkb)))) wKeys
      (WKeys (TLFWriterKeyBundle tkb)) ePubKey ePrivKey tlfCryptKey Map.empty c =
      (None, wk, nsk1, c1)"
    and "fillInDevicesAndServerMap crypto
      (int (length (TLFEphemeralPublicKeys (TLFWriterKeyBundle tkb)))) rKeys
      (RKeys (TLFReaderKeyBundle tkb)) ePubKey ePrivKey tlfCryptKey nsk1 c1 =
      (Some err, rk, nsk2, c2)"
  then show "fillInDevices crypto wKeys rKeys ePubKey ePrivKey tlfCryptKey tkb c =
      ((None, Some err),
       \<lparr>TLFWriterKeyBundle =
          \<lparr>WKeys = wk, TLFPublicKey = TLFPublicKey (TLFWriterKeyBundle tkb),
           TLFEphemeralPublicKeys = TLFEphemeralPublicKeys (TLFWriterKeyBundle tkb) @ [ePubKey]\<rparr>,
        TLFReaderKeyBundle = \<lparr>RKeys = rk\<rparr>\<rparr>, c2)"
    by (rule fillInDevices_reader_fails)
qed

theorem provisioning_failure_not_rolled_back_witness:
  "fillInDeviceInfo test_crypto ''alice'' [0x0F] [0xA0] 0
     ([\<lparr>KID = ''laptop''\<rparr>] @ \<lparr>KID = ''revoked''\<rparr> # [\<lparr>KID = ''phone''\<rparr>]) Map.empty
     [[0x05], [0x06], [0x07]] =
     ((None, Some (CryptoError ''bad device key'')), [''laptop'' \<mapsto> first_laptop_info], [[0x07]]) \<and>
   fillInDevicesAndServerMap test_crypto 0 ([] @ (''alice'', failing_devices) # [(''bob'', [])])
     Map.empty [0xE1] [0xA0] [0x0F] Map.empty [[0x05], [0x06], [0x07]] =
     (Some (CryptoError ''bad device key''), [''alice'' \<mapsto> [''laptop'' \<mapsto> first_laptop_info]],
      Map.empty, [[0x07]]) \<and>
   fillInDevices test_crypto [(''alice'', failing_devices)] [(''bob'', [\<lparr>KID = ''tablet''\<rparr>])]
     [0xE1] [0xA0] [0x0F] NewTLFKeyBundle [[0x05], [0x06], [0x07]] =
     ((None, Some (CryptoError ''bad device key'')), half_provisioned, [[0x07]]) \<and>
   fillInDevices test_crypto [(''alice'', [\<lparr>KID = ''laptop''\<rparr>])] [(''bob'', [\<lparr>KID = ''revoked''\<rparr>])]
     [0xE1] [0xA0] [0x0F] NewTLFKeyBundle [[0x05], [0x06], [0x07]] =
     ((None, Some (CryptoError ''bad device key'')), half_provisioned_reader, [[0x07]])"
proof -
  note t = provisioning_failure_not_rolled_back
  have prefix: "fillInDeviceInfo test_crypto ''alice'' [0x0F] [0xA0] 0 [\<lparr>KID = ''laptop''\<rparr>] Map.empty
      [[0x05], [0x06], [0x07]] =
      ((Some [''laptop'' \<mapsto> [0x05]], None), [''laptop'' \<mapsto> first_laptop_info], [[0x06], [0x07]])"
    by (simp add: fillInDeviceInfo_def fillInDeviceInfo_loop.simps(2) test_crypto_def
        first_laptop_info_def)
  have absent: "[''laptop'' \<mapsto> first_laptop_info] (KID \<lparr>KID = ''revoked''\<rparr>) = None"
    by simp
  have fails: "crypto_step_fails test_crypto ''alice'' [0x0F] [0xA0] \<lparr>KID = ''revoked''\<rparr>
      [[0x06], [0x07]] (CryptoError ''bad device key'') [[0x07]]"
    by (rule encrypt_fails [where serverHalf = "[0x06]" and ?c1.0 = "[[0x07]]"
          and clientHalf = "[0x09]"])
       (simp_all add: test_crypto_def)
  note a = t [THEN conjunct1, rule_format, OF prefix absent fails]
  have none: "fillInDevicesAndServerMap test_crypto 0 [] Map.empty [0xE1] [0xA0] [0x0F] Map.empty
      [[0x05], [0x06], [0x07]] = (None, Map.empty, Map.empty, [[0x05], [0x06], [0x07]])"
    by simp
  have user: "fillInDeviceInfo test_crypto ''alice'' [0x0F] [0xA0] 0 failing_devices
      (user_bundle Map.empty ''alice'') [[0x05], [0x06], [0x07]] =
      ((None, Some (CryptoError ''bad device key'')), [''laptop'' \<mapsto> first_laptop_info], [[0x07]])"
    using failing_run by (simp add: user_bundle_def)
  note b = t [THEN conjunct2, THEN conjunct2, THEN conjunct1, rule_format, OF none user]
  have wpass: "fillInDevicesAndServerMap test_crypto
      (int (length (TLFEphemeralPublicKeys (TLFWriterKeyBundle NewTLFKeyBundle))))
      [(''alice'', failing_devices)] (WKeys (TLFWriterKeyBundle NewTLFKeyBundle)) [0xE1] [0xA0] [0x0F]
      Map.empty [[0x05], [0x06], [0x07]] =
      (Some (CryptoError ''bad device key''), [''alice'' \<mapsto> [''laptop'' \<mapsto> first_laptop_info]],
       Map.empty, [[0x07]])"
    using user by (simp add: NewTLFKeyBundle_def fillInDevicesAndServerMap.simps(2))
  have c: "fillInDevices test_crypto [(''alice'', failing_devices)] [(''bob'', [\<lparr>KID = ''tablet''\<rparr>])]
     [0xE1] [0xA0] [0x0F] NewTLFKeyBundle [[0x05], [0x06], [0x07]] =
     ((None, Some (CryptoError ''bad device key'')), half_provisioned, [[0x07]])"
    using t [THEN conjunct2, THEN conjunct2, THEN conjunct2, THEN conjunct1, rule_format, OF wpass,
        of "[(''bob'', [\<lparr>KID = ''tablet''\<rparr>])]"]
    by (simp add: NewTLFKeyBundle_def half_provisioned_def)
  have wok: "fillInDevicesAndServerMap test_crypto
      (int (length (TLFEphemeralPublicKeys (TLFWriterKeyBundle NewTLFKeyBundle))))
      [(''alice'', [\<lparr>KID = ''laptop''\<rparr>])] (WKeys (TLFWriterKeyBundle NewTLFKeyBundle)) [0xE1] [0xA0] [0x0F]
      Map.empty [[0x05], [0x06], [0x07]] =
      (None, [''alice'' \<mapsto> [''laptop'' \<mapsto> first_laptop_info]],
       [''alice'' \<mapsto> [''laptop'' \<mapsto> [0x05]]], [[0x06], [0x07]])"
    using prefix
    by (simp add: NewTLFKeyBundle_def fillInDevicesAndServerMap.simps(2) user_bundle_def
        len_positive_def)
  have rfail: "fillInDevicesAndServerMap test_crypto
      (int (length (TLFEphemeralPublicKeys (TLFWriterKeyBundle NewTLFKeyBundle))))
      [(''bob'', [\<lparr>KID = ''revoked''\<rparr>])] (RKeys (TLFReaderKeyBundle NewTLFKeyBundle)) [0xE1] [0xA0] [0x0F]
      [''alice'' \<mapsto> [''laptop'' \<mapsto> [0x05]]] [[0x06], [0x07]] =
      (Some (CryptoError ''bad device key''), [''bob'' \<mapsto> Map.empty],
       [''alice'' \<mapsto> [''laptop'' \<mapsto> [0x05]]], [[0x07]])"
    by (simp add: NewTLFKeyBundle_def fillInDevicesAndServerMap.simps(2) user_bundle_def
        fillInDeviceInfo_def fillInDeviceInfo_loop.simps(2) test_crypto_def)
  have d: "fillInDevices test_crypto [(''alice'', [\<lparr>KID = ''laptop''\<rparr>])] [(''bob'', [\<lparr>KID = ''revoked''\<rparr>])]
     [0xE1] [0xA0] [0x0F] NewTLFKeyBundle [[0x05], [0x06], [0x07]] =
     ((None, Some (CryptoError ''bad device key'')), half_provisioned_reader, [[0x07]])"
    using t [THEN conjunct2, THEN conjunct2, THEN conjunct2, THEN conjunct2, rule_format, OF wok rfail]
    by (simp add: NewTLFKeyBundle_def half_provisioned_reader_def)
  show ?thesis
    by (intro conjI a b c d)
qed

end
